theory Spec2Isabelle
  imports Main
begin

section \<open>The EDI claim parser: \<^verbatim>\<open>src/edi/edi_parser.py\<close>\<close>

text \<open>
  The program reads a claim file made of segments separated by \<open>~\<close>, sorts the segments
  into header, footer and claims, and writes one file per claim type. Python strings are
  modelled as \<open>string\<close>, the module's global lists and dictionary as fields of one record,
  exceptions and \<open>sys.exit\<close> as values of the type \<open>error\<close>.
\<close>

subsection \<open>Module constants\<close>

definition SEGMENT_DELIMITER :: char where
  "SEGMENT_DELIMITER = CHR ''~''"

definition ELEMENT_DELIMITER :: char where
  "ELEMENT_DELIMITER = CHR ''*''"

definition HEADER_SEGMENTS :: "string list" where
  "HEADER_SEGMENTS = [''ISA'', ''GS'']"

definition FOOTER_SEGMENTS :: "string list" where
  "FOOTER_SEGMENTS = [''GE'', ''IEA'']"

definition FOOTER_CLAIM_COUNT_SEGMENT :: string where
  "FOOTER_CLAIM_COUNT_SEGMENT = ''GE''"

definition CLAIM_START_SEGMENT :: string where
  "CLAIM_START_SEGMENT = ''ST''"

definition CLAIM_END_SEGMENT :: string where
  "CLAIM_END_SEGMENT = ''SE''"

definition CLAIM_TYPE_SEGMENT :: string where
  "CLAIM_TYPE_SEGMENT = ''BHT''"

definition CLAIM_TYPE_ELEMENT_NUM :: nat where
  "CLAIM_TYPE_ELEMENT_NUM = 3"

definition CLAIM_COUNT_ELEMENT_NUM :: nat where
  "CLAIM_COUNT_ELEMENT_NUM = 1"

subsection \<open>Enumerations and errors\<close>

datatype ClaimType = CE | CF

definition ClaimType_members :: "ClaimType list" where
  "ClaimType_members = [CE, CF]"

fun ClaimType_name :: "ClaimType \<Rightarrow> string" where
  "ClaimType_name CE = ''CE''"
| "ClaimType_name CF = ''CF''"

text \<open>\<open>ClaimType[name]\<close>: the member of that exact name, \<open>None\<close> where Python raises KeyError.\<close>

definition ClaimType_getitem :: "string \<Rightarrow> ClaimType option" where
  "ClaimType_getitem name =
     (if name = ''CE'' then Some CE else if name = ''CF'' then Some CF else None)"

datatype ErrorCode =
    ERR_MISSING_SUBCOMMAND
  | ERR_MISSING_ARG
  | ERR_CANT_READ_FILE
  | ERR_CANT_WRITE_FILE
  | ERR_HEADER_NOT_FOUND
  | ERR_FOOTER_NOT_FOUND
  | ERR_CLAIM_DATA_NOT_FOUND
  | ERR_UNKNOWN

fun ErrorCode_value :: "ErrorCode \<Rightarrow> nat" where
  "ErrorCode_value ERR_MISSING_SUBCOMMAND = 1"
| "ErrorCode_value ERR_MISSING_ARG = 2"
| "ErrorCode_value ERR_CANT_READ_FILE = 3"
| "ErrorCode_value ERR_CANT_WRITE_FILE = 4"
| "ErrorCode_value ERR_HEADER_NOT_FOUND = 5"
| "ErrorCode_value ERR_FOOTER_NOT_FOUND = 6"
| "ErrorCode_value ERR_CLAIM_DATA_NOT_FOUND = 7"
| "ErrorCode_value ERR_UNKNOWN = 256"

text \<open>
  What \<open>open\<close> can raise. The first two are the classes the program catches;
  \<open>IsADirectoryError\<close> and \<open>OtherOSError\<close> are OSError subclasses it does not catch.
\<close>

datatype os_error = FileNotFoundError | PermissionError | IsADirectoryError | OtherOSError

text \<open>
  How a call can end other than by returning: \<open>SystemExit n\<close> is \<open>sys.exit(n)\<close>, the
  others are Python exceptions (\<open>CsvError\<close> is \<open>_csv.Error\<close>).
\<close>

datatype error =
    SystemExit nat
  | KeyError
  | IndexError
  | ValueError
  | CsvError
  | OSError os_error

text \<open>\<open>handle_error\<close> logs and then exits with the value of the error code.\<close>

definition handle_error :: "ErrorCode \<Rightarrow> error" where
  "handle_error error_code = SystemExit (ErrorCode_value error_code)"

subsection \<open>String operations of Python used by the program\<close>

text \<open>\<open>s.startswith(p)\<close> and \<open>s.startswith(tuple(ps))\<close>.\<close>

definition startswith :: "string \<Rightarrow> string \<Rightarrow> bool" where
  "startswith s p = (take (length p) s = p)"

fun startswith_any :: "string \<Rightarrow> string list \<Rightarrow> bool" where
  "startswith_any s [] = False"
| "startswith_any s (p # ps) = (startswith s p \<or> startswith_any s ps)"

text \<open>
  \<open>s.split(d)\<close> for a separator of one character: the pieces between the separators,
  always at least one piece. \<open>split_where\<close> cuts at every character that satisfies a
  predicate.
\<close>

fun split_where :: "(char \<Rightarrow> bool) \<Rightarrow> string \<Rightarrow> string list" where
  "split_where P [] = [[]]"
| "split_where P (c # cs) =
     (if P c then [] # split_where P cs
      else (case split_where P cs of [] \<Rightarrow> [[c]] | w # ws \<Rightarrow> (c # w) # ws))"

definition str_split :: "char \<Rightarrow> string \<Rightarrow> string list" where
  "str_split d s = split_where (\<lambda>c. c = d) s"

text \<open>\<open>d.join(xs)\<close>.\<close>

fun str_join :: "string \<Rightarrow> string list \<Rightarrow> string" where
  "str_join d [] = []"
| "str_join d [x] = x"
| "str_join d (x # y # ys) = x @ d @ str_join d (y # ys)"

text \<open>\<open>s.index(c)\<close>: the first position of \<open>c\<close>, \<open>None\<close> where Python raises ValueError.\<close>

fun str_index :: "string \<Rightarrow> char \<Rightarrow> nat option" where
  "str_index [] c = None"
| "str_index (x # xs) c = (if x = c then Some 0 else map_option Suc (str_index xs c))"

text \<open>\<open>str(n)\<close> for a count: its decimal digits.\<close>

definition digit_char :: "nat \<Rightarrow> char" where
  "digit_char d = ''0123456789'' ! d"

fun str_nat :: "nat \<Rightarrow> string" where
  "str_nat n = (if n < 10 then [digit_char n] else str_nat (n div 10) @ [digit_char (n mod 10)])"

text \<open>\<open>os.path.basename\<close> on a POSIX system: what follows the last \<open>/\<close>.\<close>

definition basename :: "string \<Rightarrow> string" where
  "basename p = rev (takeWhile (\<lambda>c. c \<noteq> CHR ''/'') (rev p))"

subsection \<open>Program state\<close>

text \<open>
  A \<open>Claim\<close> object holds its type (\<open>None\<close> while no type was resolved) and a reference to
  a list object. The list that \<open>parse_input_file\<close> hands to \<open>Claim(...)\<close> is the very list
  it keeps appending to, so list objects live in a heap and \<open>data\<close> is an address.
\<close>

record Claim =
  claim_type :: "ClaimType option"
  data :: nat

text \<open>
  The module's globals \<open>header\<close>, \<open>footer\<close>, \<open>claims\<close>, \<open>claim_counts\<close>, the heap of list
  objects with the next free address, and the two locals of \<open>parse_input_file\<close>.
  A dictionary key is a claim type or Python's \<open>None\<close>. Counts start at zero and are only
  incremented, so they are natural numbers.
\<close>

record pstate =
  header :: "string list"
  footer :: "string list"
  claims :: "Claim list"
  claim_counts :: "ClaimType option \<rightharpoonup> nat"
  heap :: "nat \<Rightarrow> string list"
  next_ref :: nat
  cur_claim_data :: nat
  cur_claim_type :: "ClaimType option"

text \<open>The state when the module has been loaded: empty lists, empty dictionary.\<close>

definition module_globals :: pstate where
  "module_globals =
     \<lparr>header = [], footer = [], claims = [], claim_counts = Map.empty,
      heap = (\<lambda>_. []), next_ref = 0, cur_claim_data = 0, cur_claim_type = None\<rparr>"

text \<open>\<open>init\<close>: a zero count for every claim type, in the order of the enumeration.\<close>

definition init :: "pstate \<Rightarrow> pstate" where
  "init st = fold (\<lambda>t s. s\<lparr>claim_counts := (claim_counts s)(Some t \<mapsto> 0)\<rparr>) ClaimType_members st"

text \<open>A new list object with the given content; the result is the state and the address.\<close>

definition new_list :: "string list \<Rightarrow> pstate \<Rightarrow> pstate \<times> nat" where
  "new_list xs st =
     (st\<lparr>heap := (heap st)(next_ref st := xs), next_ref := Suc (next_ref st)\<rparr>, next_ref st)"

text \<open>\<open>cur_claim_data.append(segment)\<close>: the list object is changed in place.\<close>

definition append_cur :: "string \<Rightarrow> pstate \<Rightarrow> pstate" where
  "append_cur segment st =
     st\<lparr>heap := (heap st)(cur_claim_data st := heap st (cur_claim_data st) @ [segment])\<rparr>"

text \<open>The segments a claim holds in a given state.\<close>

definition claim_data :: "pstate \<Rightarrow> Claim \<Rightarrow> string list" where
  "claim_data st c = heap st (data c)"

subsection \<open>The classifier: the body of the loops of \<open>parse_input_file\<close>\<close>

text \<open>
  One segment, lines 163 to 193. The result is the exception raised, if any, and the state
  at that moment: on the claim-end branch the claim is appended before the count is read.
\<close>

definition classify :: "pstate \<Rightarrow> string \<Rightarrow> error option \<times> pstate" where
  "classify st segment =
     (if segment = [] then (None, st)
      else if startswith_any segment HEADER_SEGMENTS then
        (None, st\<lparr>header := header st @ [segment]\<rparr>)
      else if startswith_any segment FOOTER_SEGMENTS then
        (None, st\<lparr>footer := footer st @ [segment]\<rparr>)
      else if startswith segment CLAIM_START_SEGMENT then
        (let (st1, r) = new_list [segment] st in (None, st1\<lparr>cur_claim_data := r\<rparr>))
      else if startswith segment CLAIM_END_SEGMENT then
        (let st1 = append_cur segment st;
             claim = \<lparr>claim_type = cur_claim_type st1, data = cur_claim_data st1\<rparr>;
             st2 = st1\<lparr>claims := claims st1 @ [claim]\<rparr>
         in (case claim_counts st2 (cur_claim_type st2) of
               None \<Rightarrow> (Some KeyError, st2)
             | Some n \<Rightarrow>
                 (None, st2\<lparr>claim_counts := (claim_counts st2)(cur_claim_type st2 \<mapsto> n + 1)\<rparr>)))
      else
        (let st1 = append_cur segment st in
         if startswith segment CLAIM_TYPE_SEGMENT then
           (let elements = str_split ELEMENT_DELIMITER segment in
            if CLAIM_TYPE_ELEMENT_NUM < length elements then
              (case ClaimType_getitem (take 2 (elements ! CLAIM_TYPE_ELEMENT_NUM)) of
                 None \<Rightarrow> (Some KeyError, st1)
               | Some t \<Rightarrow> (None, st1\<lparr>cur_claim_type := Some t\<rparr>))
            else (Some IndexError, st1))
         else (None, st1)))"

text \<open>The inner loop over the segments of one row, and the outer loop over the rows.\<close>

fun parse_row :: "pstate \<Rightarrow> string list \<Rightarrow> error option \<times> pstate" where
  "parse_row st [] = (None, st)"
| "parse_row st (segment # segments) =
     (case classify st segment of
        (Some e, st') \<Rightarrow> (Some e, st')
      | (None, st') \<Rightarrow> parse_row st' segments)"

fun parse_rows :: "pstate \<Rightarrow> string list list \<Rightarrow> error option \<times> pstate" where
  "parse_rows st [] = (None, st)"
| "parse_rows st (segments # rows) =
     (case parse_row st segments of
        (Some e, st') \<Rightarrow> (Some e, st')
      | (None, st') \<Rightarrow> parse_rows st' rows)"

text \<open>Lines 156 and 157: a new empty list for \<open>cur_claim_data\<close>, no type.\<close>

definition enter_parse :: "pstate \<Rightarrow> pstate" where
  "enter_parse st = (let (st1, r) = new_list [] st in st1\<lparr>cur_claim_data := r, cur_claim_type := None\<rparr>)"

subsection \<open>Reading the file: text mode and \<open>csv.reader\<close>\<close>

text \<open>
  \<open>open(filename, "r")\<close> reads in text mode with universal newlines: \<open>\r\n\<close> and a lone
  \<open>\r\<close> arrive as \<open>\n\<close>, and iterating the file gives its lines, each with its \<open>\n\<close>
  (the last line may have none). The content is the decoded text.
\<close>

definition LF :: char where
  "LF = CHR 0x0A"

definition CR :: char where
  "CR = CHR 0x0D"

fun universal_newlines :: "string \<Rightarrow> string" where
  "universal_newlines [] = []"
| "universal_newlines [c] = (if c = CR then [LF] else [c])"
| "universal_newlines (c # d # cs) =
     (if c = CR then
        (if d = LF then LF # universal_newlines cs else LF # universal_newlines (d # cs))
      else c # universal_newlines (d # cs))"

fun file_lines :: "string \<Rightarrow> string list" where
  "file_lines [] = []"
| "file_lines (c # cs) =
     (if c = LF then [c] # file_lines cs
      else (case file_lines cs of [] \<Rightarrow> [[c]] | l # ls \<Rightarrow> (c # l) # ls))"

text \<open>
  \<open>csv.reader(fh, delimiter=SEGMENT_DELIMITER)\<close> is the reader of Python's standard
  library (\<^verbatim>\<open>Modules/_csv.c\<close>, as of CPython 3.11) with the default dialect: quote character
  \<open>"\<close>, doubled quotes, no escape character, no skipping of spaces, not strict, and a
  field size limit of 131072 characters. Its states that need an escape character are
  left out. A character is \<open>Some c\<close>, the end of a line object is \<open>None\<close>.
\<close>

datatype csv_state =
    START_RECORD
  | START_FIELD
  | IN_FIELD
  | IN_QUOTED_FIELD
  | QUOTE_IN_QUOTED_FIELD
  | EAT_CRNL

record reader =
  rd_state :: csv_state
  rd_field :: string
  rd_fields :: "string list"

definition field_limit :: int where
  "field_limit = 131072"

definition quotechar :: char where
  "quotechar = CHR 0x22"

definition parse_reset :: reader where
  "parse_reset = \<lparr>rd_state = START_RECORD, rd_field = [], rd_fields = []\<rparr>"

definition parse_save_field :: "reader \<Rightarrow> reader" where
  "parse_save_field r = r\<lparr>rd_fields := rd_fields r @ [rd_field r], rd_field := []\<rparr>"

text \<open>\<open>None\<close> is the exception \<open>_csv.Error\<close>.\<close>

definition parse_add_char :: "reader \<Rightarrow> char \<Rightarrow> reader option" where
  "parse_add_char r c =
     (if field_limit \<le> int (length (rd_field r)) then None
      else Some (r\<lparr>rd_field := rd_field r @ [c]\<rparr>))"

definition end_of_record :: "reader \<Rightarrow> char option \<Rightarrow> reader" where
  "end_of_record r c =
     (parse_save_field r)\<lparr>rd_state := (if c = None then START_RECORD else EAT_CRNL)\<rparr>"

definition is_newline :: "char option \<Rightarrow> bool" where
  "is_newline c = (c = Some LF \<or> c = Some CR)"

definition add_char_then :: "csv_state \<Rightarrow> reader \<Rightarrow> char option \<Rightarrow> reader option" where
  "add_char_then s r c =
     (case c of
        None \<Rightarrow> Some r
      | Some ch \<Rightarrow> map_option (\<lambda>r'. r'\<lparr>rd_state := s\<rparr>) (parse_add_char r ch))"

definition start_field :: "char \<Rightarrow> reader \<Rightarrow> char option \<Rightarrow> reader option" where
  "start_field delimiter r c =
     (if is_newline c \<or> c = None then Some (end_of_record r c)
      else if c = Some quotechar then Some (r\<lparr>rd_state := IN_QUOTED_FIELD\<rparr>)
      else if c = Some delimiter then Some (parse_save_field r)
      else add_char_then IN_FIELD r c)"

definition parse_process_char :: "char \<Rightarrow> reader \<Rightarrow> char option \<Rightarrow> reader option" where
  "parse_process_char delimiter r c =
     (case rd_state r of
        START_RECORD \<Rightarrow>
          (if c = None then Some r
           else if is_newline c then Some (r\<lparr>rd_state := EAT_CRNL\<rparr>)
           else start_field delimiter (r\<lparr>rd_state := START_FIELD\<rparr>) c)
      | START_FIELD \<Rightarrow> start_field delimiter r c
      | IN_FIELD \<Rightarrow>
          (if is_newline c \<or> c = None then Some (end_of_record r c)
           else if c = Some delimiter then Some ((parse_save_field r)\<lparr>rd_state := START_FIELD\<rparr>)
           else add_char_then IN_FIELD r c)
      | IN_QUOTED_FIELD \<Rightarrow>
          (if c = None then Some r
           else if c = Some quotechar then Some (r\<lparr>rd_state := QUOTE_IN_QUOTED_FIELD\<rparr>)
           else add_char_then IN_QUOTED_FIELD r c)
      | QUOTE_IN_QUOTED_FIELD \<Rightarrow>
          (if c = Some quotechar then add_char_then IN_QUOTED_FIELD r c
           else if c = Some delimiter then Some ((parse_save_field r)\<lparr>rd_state := START_FIELD\<rparr>)
           else if is_newline c \<or> c = None then Some (end_of_record r c)
           else add_char_then IN_FIELD r c)
      | EAT_CRNL \<Rightarrow>
          (if is_newline c then Some r
           else if c = None then Some (r\<lparr>rd_state := START_RECORD\<rparr>)
           else None))"

text \<open>The characters of one line object, then the end of the line.\<close>

fun process_chars :: "char \<Rightarrow> reader \<Rightarrow> string \<Rightarrow> reader option" where
  "process_chars delimiter r [] = Some r"
| "process_chars delimiter r (c # cs) =
     (case parse_process_char delimiter r (Some c) of
        None \<Rightarrow> None
      | Some r' \<Rightarrow> process_chars delimiter r' cs)"

definition process_line :: "char \<Rightarrow> reader \<Rightarrow> string \<Rightarrow> reader option" where
  "process_line delimiter r l =
     (case process_chars delimiter r l of
        None \<Rightarrow> None
      | Some r' \<Rightarrow> parse_process_char delimiter r' None)"

text \<open>
  The rows the reader yields from the lines that remain, and whether it then raises
  \<open>_csv.Error\<close>. A row ends when a line leaves the reader in \<open>START_RECORD\<close>; otherwise the
  next line continues the row. When the lines run out inside a row, the row is yielded if
  a field is under way.
\<close>

fun reader_rows :: "char \<Rightarrow> reader \<Rightarrow> string list \<Rightarrow> string list list \<times> bool" where
  "reader_rows delimiter r [] =
     (if rd_field r \<noteq> [] \<or> rd_state r = IN_QUOTED_FIELD
      then ([rd_fields (parse_save_field r)], False)
      else ([], False))"
| "reader_rows delimiter r (l # ls) =
     (case process_line delimiter r l of
        None \<Rightarrow> ([], True)
      | Some r' \<Rightarrow>
          if rd_state r' \<noteq> START_RECORD then reader_rows delimiter r' ls
          else (case reader_rows delimiter parse_reset ls of
                  (rows, err) \<Rightarrow> (rd_fields r' # rows, err)))"

definition csv_reader :: "char \<Rightarrow> string list \<Rightarrow> string list list \<times> bool" where
  "csv_reader delimiter lines = reader_rows delimiter parse_reset lines"

text \<open>The rows that a file of the given content feeds to the loops of \<open>parse_input_file\<close>.\<close>

definition read_rows :: "string \<Rightarrow> string list list \<times> bool" where
  "read_rows content = csv_reader SEGMENT_DELIMITER (file_lines (universal_newlines content))"

subsection \<open>\<open>parse_input_file\<close>\<close>

text \<open>
  \<open>open_r\<close> is the file system as \<open>open(filename, "r")\<close> sees it: the exception raised or
  the content. The rows are consumed as the reader yields them, so an error of the reader
  is raised after the rows before it have been classified.
\<close>

definition parse_input_file ::
  "(string \<Rightarrow> os_error + string) \<Rightarrow> string \<Rightarrow> pstate \<Rightarrow> error option \<times> pstate" where
  "parse_input_file open_r filename st =
     (case open_r filename of
        Inl FileNotFoundError \<Rightarrow> (Some (handle_error ERR_CANT_READ_FILE), st)
      | Inl PermissionError \<Rightarrow> (Some (handle_error ERR_CANT_READ_FILE), st)
      | Inl ex \<Rightarrow> (Some (OSError ex), st)
      | Inr content \<Rightarrow>
          (case read_rows content of
             (rows, csv_error) \<Rightarrow>
               (case parse_rows (enter_parse st) rows of
                  (Some e, st') \<Rightarrow> (Some e, st')
                | (None, st') \<Rightarrow> (if csv_error then (Some CsvError, st') else (None, st')))))"

subsection \<open>\<open>write_output_file\<close>\<close>

text \<open>What the loop over \<open>claims\<close> adds to the text written so far.\<close>

fun write_claims :: "pstate \<Rightarrow> ClaimType \<Rightarrow> Claim list \<Rightarrow> string \<Rightarrow> string" where
  "write_claims st t [] out = out"
| "write_claims st t (claim_item # rest) out =
     write_claims st t rest
       (if claim_type claim_item = Some t
        then (out @ [SEGMENT_DELIMITER]) @ str_join [SEGMENT_DELIMITER] (claim_data st claim_item)
        else out)"

text \<open>
  The loop over \<open>footer\<close>; \<open>n\<close> is \<open>claim_counts[claim_type]\<close>. Assigning to
  \<open>elements[1]\<close> raises IndexError when the segment has a single element.
\<close>

fun write_footer :: "nat \<Rightarrow> string list \<Rightarrow> string \<Rightarrow> error option \<times> string" where
  "write_footer n [] out = (None, out)"
| "write_footer n (segment # rest) out =
     (let out1 = out @ [SEGMENT_DELIMITER] in
      if startswith segment FOOTER_CLAIM_COUNT_SEGMENT then
        (let elements = str_split ELEMENT_DELIMITER segment in
         if CLAIM_COUNT_ELEMENT_NUM < length elements then
           write_footer n rest
             (out1 @ str_join [ELEMENT_DELIMITER] (elements[CLAIM_COUNT_ELEMENT_NUM := str_nat n]))
         else (Some IndexError, out1))
      else write_footer n rest (out1 @ segment))"

text \<open>
  \<open>open_w\<close> is the file system as \<open>open(filename, "w")\<close> sees it: the exception raised, if
  any. The result is the exception, if any, and the file opened with the text written to
  it (\<open>None\<close> when no file was opened).
\<close>

definition output_filename :: "string \<Rightarrow> ClaimType \<Rightarrow> string \<Rightarrow> string \<Rightarrow> string" where
  "output_filename output_dir t prefix suffix =
     output_dir @ ''/'' @ prefix @ ''_'' @ ClaimType_name t @ suffix"

definition write_output_file ::
  "(string \<Rightarrow> os_error option) \<Rightarrow> pstate \<Rightarrow> string \<Rightarrow> ClaimType \<Rightarrow> string \<Rightarrow> string
     \<Rightarrow> error option \<times> (string \<times> string) option" where
  "write_output_file open_w st output_dir t prefix suffix =
     (case claim_counts st (Some t) of
        None \<Rightarrow> (Some KeyError, None)
      | Some n \<Rightarrow>
          if n \<noteq> 0 then
            (let filename = output_filename output_dir t prefix suffix in
             case open_w filename of
               Some FileNotFoundError \<Rightarrow> (Some (handle_error ERR_CANT_WRITE_FILE), None)
             | Some PermissionError \<Rightarrow> (Some (handle_error ERR_CANT_WRITE_FILE), None)
             | Some ex \<Rightarrow> (Some (OSError ex), None)
             | None \<Rightarrow>
                 (let out1 = str_join [SEGMENT_DELIMITER] (header st);
                      out2 = write_claims st t (claims st) out1
                  in case write_footer n (footer st) out2 of
                       (e, out3) \<Rightarrow> (e, Some (filename, out3))))
          else (None, None))"

subsection \<open>The subcommands and the script\<close>

text \<open>An argument of the command line that was not given, or given empty, is falsy.\<close>

definition falsy :: "string option \<Rightarrow> bool" where
  "falsy a = (case a of None \<Rightarrow> True | Some s \<Rightarrow> s = [])"

definition arg_value :: "string option \<Rightarrow> string" where
  "arg_value a = (case a of None \<Rightarrow> [] | Some s \<Rightarrow> s)"

text \<open>The loop over the claim types at the end of \<open>split\<close>; \<open>files\<close> are the files opened so far.\<close>

fun split_write ::
  "(string \<Rightarrow> os_error option) \<Rightarrow> pstate \<Rightarrow> string \<Rightarrow> string \<Rightarrow> string \<Rightarrow> ClaimType list
     \<Rightarrow> (string \<times> string) list \<Rightarrow> error option \<times> (string \<times> string) list" where
  "split_write open_w st output_dir prefix suffix [] files = (None, files)"
| "split_write open_w st output_dir prefix suffix (t # ts) files =
     (case claim_counts st (Some t) of
        None \<Rightarrow> (Some KeyError, files)
      | Some n \<Rightarrow>
          if n \<noteq> 0 then
            (case write_output_file open_w st output_dir t prefix suffix of
               (Some e, f) \<Rightarrow> (Some e, files @ (case f of None \<Rightarrow> [] | Some x \<Rightarrow> [x]))
             | (None, f) \<Rightarrow>
                 split_write open_w st output_dir prefix suffix ts
                   (files @ (case f of None \<Rightarrow> [] | Some x \<Rightarrow> [x])))
          else split_write open_w st output_dir prefix suffix ts files)"

definition split ::
  "(string \<Rightarrow> os_error + string) \<Rightarrow> (string \<Rightarrow> os_error option) \<Rightarrow> string option
     \<Rightarrow> string option \<Rightarrow> pstate \<Rightarrow> error option \<times> pstate \<times> (string \<times> string) list" where
  "split open_r open_w input_file output_dir st =
     (if falsy input_file then (Some (handle_error ERR_MISSING_ARG), st, [])
      else if falsy output_dir then (Some (handle_error ERR_MISSING_ARG), st, [])
      else
        (case parse_input_file open_r (arg_value input_file) st of
           (Some e, st') \<Rightarrow> (Some e, st', [])
         | (None, st') \<Rightarrow>
             if header st' = [] then (Some (handle_error ERR_HEADER_NOT_FOUND), st', [])
             else if footer st' = [] then (Some (handle_error ERR_FOOTER_NOT_FOUND), st', [])
             else if claims st' = [] then (Some (handle_error ERR_CLAIM_DATA_NOT_FOUND), st', [])
             else
               (let input_filename = basename (arg_value input_file) in
                case str_index input_filename (CHR ''.'') of
                  None \<Rightarrow> (Some ValueError, st', [])
                | Some first_period \<Rightarrow>
                    (let prefix = take first_period input_filename;
                         suffix = drop first_period input_filename
                     in case split_write open_w st' (arg_value output_dir) prefix suffix
                               ClaimType_members [] of
                          (e, files) \<Rightarrow> (e, st', files)))))"

text \<open>\<open>verify\<close> parses and then prints a summary; printing changes nothing.\<close>

definition verify ::
  "(string \<Rightarrow> os_error + string) \<Rightarrow> string option \<Rightarrow> pstate \<Rightarrow> error option \<times> pstate" where
  "verify open_r input_file st =
     (if falsy input_file then (Some (handle_error ERR_MISSING_ARG), st)
      else parse_input_file open_r (arg_value input_file) st)"

text \<open>
  The script calls \<open>init()\<close> and then \<open>cli()\<close>, which belongs to the library milc that the
  program imports. \<open>cli()\<close> runs the entry point or the subcommand of the command line
  inside milc's context manager; when that is left with an exception other than
  \<open>SystemExit\<close>, milc logs the exception and exits with status 255, so no such exception
  leaves \<open>cli()\<close>. The handler of line 245 turns an exception that leaves the \<open>try\<close> block
  (not \<open>sys.exit\<close>) into \<open>handle_error(ErrorCode.ERR_UNKNOWN, error)\<close>.
\<close>

datatype command = NoSubcommand | Verify "string option" | Split "string option" "string option"

definition cli_call :: "error option \<Rightarrow> error option" where
  "cli_call e =
     (case e of
        None \<Rightarrow> None
      | Some (SystemExit n) \<Rightarrow> Some (SystemExit n)
      | Some _ \<Rightarrow> Some (SystemExit 255))"

definition except_Exception :: "error option \<Rightarrow> error option" where
  "except_Exception e =
     (case e of
        None \<Rightarrow> None
      | Some (SystemExit n) \<Rightarrow> Some (SystemExit n)
      | Some _ \<Rightarrow> Some (handle_error ERR_UNKNOWN))"

definition script ::
  "(string \<Rightarrow> os_error + string) \<Rightarrow> (string \<Rightarrow> os_error option) \<Rightarrow> command
     \<Rightarrow> error option \<times> pstate \<times> (string \<times> string) list" where
  "script open_r open_w cmd =
     (let st = init module_globals in
      case cmd of
        NoSubcommand \<Rightarrow>
          (except_Exception (cli_call (Some (handle_error ERR_MISSING_SUBCOMMAND))), st, [])
      | Verify input_file \<Rightarrow>
          (case verify open_r input_file st of
             (e, st') \<Rightarrow> (except_Exception (cli_call e), st', []))
      | Split input_file output_dir \<Rightarrow>
          (case split open_r open_w input_file output_dir st of
             (e, st', files) \<Rightarrow> (except_Exception (cli_call e), st', files)))"

section \<open>Notions used to state the properties\<close>

text \<open>
  Addresses in use lie below the next free address: this holds when \<open>parse_input_file\<close>
  starts its loops and after every segment.
\<close>

definition refs_ok :: "pstate \<Rightarrow> bool" where
  "refs_ok st =
     (cur_claim_data st < next_ref st \<and> list_all (\<lambda>c. data c < next_ref st) (claims st))"

text \<open>The current buffer is open: no claim in the list holds it.\<close>

definition unsealed :: "pstate \<Rightarrow> bool" where
  "unsealed st = (\<not> list_ex (\<lambda>c. data c = cur_claim_data st) (claims st))"

text \<open>
  The segments of a file in the order in which the loops of \<open>parse_input_file\<close> meet
  them: the fields of the rows that the reader yields.
\<close>

definition segments :: "string \<Rightarrow> string list" where
  "segments content = concat (fst (read_rows content))"

text \<open>
  The number of pairs of a claim-start segment and the claim-end segment that closes it,
  and the streams in which start and end segments alternate, beginning with a start and
  with no claim left open. \<open>opened\<close> tells whether a claim is open.
\<close>

fun claim_pairs :: "bool \<Rightarrow> string list \<Rightarrow> nat" where
  "claim_pairs opened [] = 0"
| "claim_pairs opened (s # ss) =
     (if startswith s CLAIM_START_SEGMENT then claim_pairs True ss
      else if startswith s CLAIM_END_SEGMENT \<and> opened then Suc (claim_pairs False ss)
      else claim_pairs opened ss)"

fun well_formed :: "bool \<Rightarrow> string list \<Rightarrow> bool" where
  "well_formed opened [] = (\<not> opened)"
| "well_formed opened (s # ss) =
     (if startswith s CLAIM_START_SEGMENT then \<not> opened \<and> well_formed True ss
      else if startswith s CLAIM_END_SEGMENT then opened \<and> well_formed False ss
      else well_formed opened ss)"

text \<open>The counts are defined for both claim types, not for \<open>None\<close>, and sum to the number of claims.\<close>

definition counts_match :: "pstate \<Rightarrow> bool" where
  "counts_match st =
     (claim_counts st None = None \<and>
      (\<exists>ce cf. claim_counts st (Some CE) = Some ce \<and> claim_counts st (Some CF) = Some cf \<and>
               ce + cf = length (claims st)))"

text \<open>The current buffer begins with a claim-start segment.\<close>

definition buffer_started :: "pstate \<Rightarrow> bool" where
  "buffer_started st =
     (heap st (cur_claim_data st) \<noteq> [] \<and>
      startswith (hd (heap st (cur_claim_data st))) CLAIM_START_SEGMENT)"

text \<open>
  The content of an output file as the specification words it: the header segments
  joined by \<open>~\<close>; then, for each claim of the type, \<open>~\<close> and the claim's segments joined
  by \<open>~\<close>; then, for each footer segment, \<open>~\<close> and the segment, where a segment with
  the prefix \<open>GE\<close> has its element 1 replaced by the decimal count.
\<close>

definition count_rewrite :: "nat \<Rightarrow> string \<Rightarrow> string" where
  "count_rewrite n segment =
     (if startswith segment ''GE''
      then str_join ''*'' ((str_split (CHR ''*'') segment)[1 := str_nat n])
      else segment)"

definition expected_content :: "pstate \<Rightarrow> ClaimType \<Rightarrow> nat \<Rightarrow> string" where
  "expected_content st t n =
     str_join ''~'' (header st) @
     concat (map (\<lambda>c. ''~'' @ str_join ''~'' (claim_data st c))
               (filter (\<lambda>c. claim_type c = Some t) (claims st))) @
     concat (map (\<lambda>s. ''~'' @ count_rewrite n s) (footer st))"

text \<open>
  The segments that reach the classifier: the loop skips the empty ones. Beside it, the
  tokenization as the specification words it: the content with its line breaks taken
  out, cut at every \<open>~\<close>, the empty pieces dropped.
\<close>

definition tokens :: "string \<Rightarrow> string list" where
  "tokens content = filter (\<lambda>s. s \<noteq> []) (segments content)"

definition claimed_tokens :: "string \<Rightarrow> string list" where
  "claimed_tokens content =
     filter (\<lambda>s. s \<noteq> [])
       (str_split (CHR ''~'') (filter (\<lambda>c. c \<noteq> LF \<and> c \<noteq> CR) content))"

text \<open>
  The characters at which the program does cut (\<open>~\<close> and the line breaks), the same
  after the translation of newlines, and the pieces that fit the reader's field limit.
\<close>

definition is_separator :: "char \<Rightarrow> bool" where
  "is_separator c = (c = CHR ''~'' \<or> c = LF \<or> c = CR)"

definition is_separator_lf :: "char \<Rightarrow> bool" where
  "is_separator_lf c = (c = CHR ''~'' \<or> c = LF)"

definition within_limit :: "string \<Rightarrow> bool" where
  "within_limit p = (int (length p) \<le> field_limit)"

text \<open>The states of the reader outside quoted fields.\<close>

definition plain :: "reader \<Rightarrow> bool" where
  "plain r =
     (rd_state r = START_FIELD \<or> rd_state r = IN_FIELD \<or>
      (rd_state r = START_RECORD \<and> rd_field r = []))"

subsection \<open>Example inputs\<close>

text \<open>File systems: every path is a directory, is missing, holds a given content, can be written.\<close>

definition fs_directory :: "string \<Rightarrow> os_error + string" where
  "fs_directory p = Inl IsADirectoryError"

definition fs_missing :: "string \<Rightarrow> os_error + string" where
  "fs_missing p = Inl FileNotFoundError"

definition fs_content :: "string \<Rightarrow> string \<Rightarrow> os_error + string" where
  "fs_content content p = Inr content"

definition fs_writable :: "string \<Rightarrow> os_error option" where
  "fs_writable p = None"

text \<open>The state inside a claim: a start segment and a type segment have been read.\<close>

definition ex_open :: pstate where
  "ex_open = snd (parse_row (enter_parse (init module_globals)) [''ST*1'', ''BHT*0019*00*CE''])"

text \<open>
  File contents: two complete claims; a claim with no start segment; a claim with no type
  segment.
\<close>

definition ex_two_claims :: string where
  "ex_two_claims = ''ISA*1~ST*1~BHT*0*0*CE~SE*1~ST*2~BHT*0*0*CF~SE*2~GE*2~''"

definition ex_no_start :: string where
  "ex_no_start = ''BHT*0*0*CE~SE*1~''"

definition ex_no_type :: string where
  "ex_no_type = ''ISA*1~ST*1~SE*1~''"

text \<open>A file with a stray segment after the claim-end segment.\<close>

definition ex_trailing :: string where
  "ex_trailing = ''ST*1~BHT*0*0*CE~SE*1~XX~''"

text \<open>A file whose footer segment \<open>GE\<close> has no elements.\<close>

definition ex_bare_footer :: string where
  "ex_bare_footer = ''ISA*1~ST*1~BHT*0*0*CE~SE*1~GE~''"

text \<open>A file whose type segment is wrapped onto a second line.\<close>

definition ex_wrapped :: string where
  "ex_wrapped = ''ST*1~BH\<newline>T*0*0*CE~SE*1~''"

section \<open>Basic facts\<close>

lemmas constant_defs =
  SEGMENT_DELIMITER_def ELEMENT_DELIMITER_def HEADER_SEGMENTS_def FOOTER_SEGMENTS_def
  FOOTER_CLAIM_COUNT_SEGMENT_def CLAIM_START_SEGMENT_def CLAIM_END_SEGMENT_def
  CLAIM_TYPE_SEGMENT_def CLAIM_TYPE_ELEMENT_NUM_def CLAIM_COUNT_ELEMENT_NUM_def

declare str_nat.simps [simp del]

lemma startswith_Nil [simp]: "startswith s [] = True"
  by (simp add: startswith_def)

lemma startswith_Cons: "startswith s (c # p) = (\<exists>t. s = c # t \<and> startswith t p)"
  by (cases s) (auto simp: startswith_def)

lemma startswith_ST: "startswith s CLAIM_START_SEGMENT = (\<exists>t. s = CHR ''S'' # CHR ''T'' # t)"
  by (auto simp: CLAIM_START_SEGMENT_def startswith_Cons)

lemma startswith_SE: "startswith s CLAIM_END_SEGMENT = (\<exists>t. s = CHR ''S'' # CHR ''E'' # t)"
  by (auto simp: CLAIM_END_SEGMENT_def startswith_Cons)

lemma startswith_BHT:
  "startswith s CLAIM_TYPE_SEGMENT = (\<exists>t. s = CHR ''B'' # CHR ''H'' # CHR ''T'' # t)"
  by (auto simp: CLAIM_TYPE_SEGMENT_def startswith_Cons)

lemma header_footer_first_char:
  "startswith_any (c # t) HEADER_SEGMENTS \<or> startswith_any (c # t) FOOTER_SEGMENTS
     \<Longrightarrow> c = CHR ''I'' \<or> c = CHR ''G''"
  by (auto simp: HEADER_SEGMENTS_def FOOTER_SEGMENTS_def startswith_Cons)

lemma classify_start:
  assumes "startswith segment CLAIM_START_SEGMENT"
  shows "classify st segment =
           (None, st\<lparr>heap := (heap st)(next_ref st := [segment]),
                     next_ref := Suc (next_ref st), cur_claim_data := next_ref st\<rparr>)"
proof -
  from assms obtain t where s: "segment = CHR ''S'' # CHR ''T'' # t"
    by (auto simp: startswith_ST)
  have "\<not> startswith_any segment HEADER_SEGMENTS" "\<not> startswith_any segment FOOTER_SEGMENTS"
    using header_footer_first_char [of "CHR ''S''" "CHR ''T'' # t"] by (auto simp: s)
  with assms show ?thesis
    by (simp add: classify_def new_list_def s)
qed

lemma classify_end:
  assumes "startswith segment CLAIM_END_SEGMENT"
  shows "classify st segment =
           (let st2 = (append_cur segment st)
                        \<lparr>claims := claims st @ [\<lparr>claim_type = cur_claim_type st, data = cur_claim_data st\<rparr>]\<rparr>
            in case claim_counts st (cur_claim_type st) of
                 None \<Rightarrow> (Some KeyError, st2)
               | Some n \<Rightarrow> (None, st2\<lparr>claim_counts := (claim_counts st)(cur_claim_type st \<mapsto> Suc n)\<rparr>))"
proof -
  from assms obtain t where s: "segment = CHR ''S'' # CHR ''E'' # t"
    by (auto simp: startswith_SE)
  have "\<not> startswith_any segment HEADER_SEGMENTS" "\<not> startswith_any segment FOOTER_SEGMENTS"
    using header_footer_first_char [of "CHR ''S''" "CHR ''E'' # t"] by (auto simp: s)
  moreover have "\<not> startswith segment CLAIM_START_SEGMENT"
    by (simp add: s startswith_ST)
  ultimately show ?thesis using assms
    by (simp add: classify_def append_cur_def s Let_def split: option.splits)
qed

lemma classify_type:
  assumes "startswith segment CLAIM_TYPE_SEGMENT"
  shows "classify st segment =
           (let elements = str_split ELEMENT_DELIMITER segment in
            if CLAIM_TYPE_ELEMENT_NUM < length elements then
              (case ClaimType_getitem (take 2 (elements ! CLAIM_TYPE_ELEMENT_NUM)) of
                 None \<Rightarrow> (Some KeyError, append_cur segment st)
               | Some t \<Rightarrow> (None, (append_cur segment st)\<lparr>cur_claim_type := Some t\<rparr>))
            else (Some IndexError, append_cur segment st))"
proof -
  from assms obtain t where s: "segment = CHR ''B'' # CHR ''H'' # CHR ''T'' # t"
    by (auto simp: startswith_BHT)
  have "\<not> startswith_any segment HEADER_SEGMENTS" "\<not> startswith_any segment FOOTER_SEGMENTS"
    using header_footer_first_char [of "CHR ''B''" "CHR ''H'' # CHR ''T'' # t"] by (auto simp: s)
  moreover have "\<not> startswith segment CLAIM_START_SEGMENT" "\<not> startswith segment CLAIM_END_SEGMENT"
    by (simp_all add: s startswith_ST startswith_SE)
  moreover have "segment \<noteq> []"
    by (simp add: s)
  ultimately show ?thesis using assms
    by (simp add: classify_def Let_def split: option.splits)
qed

lemma ClaimType_getitem_name: "ClaimType_getitem name = Some t \<longleftrightarrow> name = ClaimType_name t"
  by (cases t) (auto simp: ClaimType_getitem_def)

section \<open>The classifier, segment by segment\<close>

text \<open>Addresses stay in range from the start of the loops on.\<close>

lemma refs_ok_enter_parse:
  "list_all (\<lambda>c. data c < next_ref st) (claims st) \<Longrightarrow> refs_ok (enter_parse st)"
  by (auto simp: refs_ok_def enter_parse_def new_list_def list_all_iff)

lemma refs_ok_classify: "refs_ok st \<Longrightarrow> refs_ok (snd (classify st s))"
  by (auto simp: refs_ok_def classify_def Let_def new_list_def append_cur_def list_all_iff
      split: option.splits)

lemma refs_ok_parse_row: "refs_ok st \<Longrightarrow> refs_ok (snd (parse_row st segs))"
proof (induction segs arbitrary: st)
  case Nil
  then show ?case by simp
next
  case (Cons s segs)
  from refs_ok_classify [OF Cons.prems, of s] Cons.IH [of "snd (classify st s)"]
  show ?case by (auto split: prod.splits option.splits)
qed

text \<open>
  C5. A segment with the claim-start prefix \<open>ST\<close> that arrives while a buffer is open
  raises no error and makes a new buffer that holds this segment only. The old buffer is
  dropped: neither the current buffer nor any claim refers to it afterwards. The claims
  list, the segments of the claims in it, the counts, the current type, the header and the
  footer stay as they were.
\<close>

theorem start_segment_replaces_open_buffer:
  assumes "startswith segment CLAIM_START_SEGMENT" and "refs_ok st" and "unsealed st"
  shows "fst (classify st segment) = None \<and>
         (let st' = snd (classify st segment) in
            heap st' (cur_claim_data st') = [segment] \<and>
            cur_claim_data st' \<noteq> cur_claim_data st \<and>
            \<not> list_ex (\<lambda>c. data c = cur_claim_data st) (claims st') \<and>
            claims st' = claims st \<and>
            map (claim_data st') (claims st') = map (claim_data st) (claims st) \<and>
            claim_counts st' = claim_counts st \<and>
            cur_claim_type st' = cur_claim_type st \<and>
            header st' = header st \<and> footer st' = footer st)"
proof -
  have "map (\<lambda>c. ((heap st)(next_ref st := [segment])) (data c)) (claims st) =
        map (\<lambda>c. heap st (data c)) (claims st)"
    using assms(2) by (auto simp: refs_ok_def list_all_iff)
  then show ?thesis
    using assms by (auto simp: classify_start refs_ok_def unsealed_def claim_data_def)
qed

theorem start_segment_replaces_open_buffer_witness:
  "startswith ''ST*2'' CLAIM_START_SEGMENT \<and> refs_ok ex_open \<and> unsealed ex_open \<and>
   heap ex_open (cur_claim_data ex_open) = [''ST*1'', ''BHT*0019*00*CE''] \<and>
   fst (classify ex_open ''ST*2'') = None \<and>
   heap (snd (classify ex_open ''ST*2'')) (cur_claim_data (snd (classify ex_open ''ST*2''))) = [''ST*2''] \<and>
   claims (snd (classify ex_open ''ST*2'')) = []"
proof -
  have h1: "startswith ''ST*2'' CLAIM_START_SEGMENT" by code_simp
  have h2: "refs_ok ex_open" by code_simp
  have h3: "unsealed ex_open" by code_simp
  have h4: "heap ex_open (cur_claim_data ex_open) = [''ST*1'', ''BHT*0019*00*CE'']" by code_simp
  have h5: "claims ex_open = []" by code_simp
  show ?thesis
    using start_segment_replaces_open_buffer [OF h1 h2 h3] h1 h2 h3 h4 h5
    by (simp add: Let_def)
qed

text \<open>
  C6. A segment with the prefix \<open>BHT\<close> is appended to the buffer and split on \<open>*\<close>;
  the first two characters of element 3 are looked up among the names of \<open>ClaimType\<close>.
  The name \<open>CE\<close> or \<open>CF\<close> sets the current claim type; any other name raises KeyError
  and the type stays as it was. A segment with fewer than four elements raises IndexError,
  Python's other lookup failure. The failure is returned to the caller, not swallowed.
\<close>

theorem type_segment_resolves_claim_type:
  assumes "startswith segment CLAIM_TYPE_SEGMENT"
  shows "(let elements = str_split ELEMENT_DELIMITER segment;
              e = fst (classify st segment);
              st' = snd (classify st segment)
          in (if length elements \<le> 3 then e = Some IndexError \<and> cur_claim_type st' = cur_claim_type st
              else if take 2 (elements ! 3) = ''CE'' then e = None \<and> cur_claim_type st' = Some CE
              else if take 2 (elements ! 3) = ''CF'' then e = None \<and> cur_claim_type st' = Some CF
              else e = Some KeyError \<and> cur_claim_type st' = cur_claim_type st) \<and>
             heap st' (cur_claim_data st') = heap st (cur_claim_data st) @ [segment] \<and>
             claims st' = claims st \<and> claim_counts st' = claim_counts st)"
  by (simp add: classify_type [OF assms] Let_def CLAIM_TYPE_ELEMENT_NUM_def
      ClaimType_getitem_def append_cur_def not_less)

theorem type_segment_resolves_claim_type_witness:
  "startswith ''BHT*0019*00*CF1234*20220101'' CLAIM_TYPE_SEGMENT \<and>
   str_split ELEMENT_DELIMITER ''BHT*0019*00*CF1234*20220101'' =
     [''BHT'', ''0019'', ''00'', ''CF1234'', ''20220101''] \<and>
   fst (classify ex_open ''BHT*0019*00*CF1234*20220101'') = None \<and>
   cur_claim_type ex_open = Some CE \<and>
   cur_claim_type (snd (classify ex_open ''BHT*0019*00*CF1234*20220101'')) = Some CF \<and>
   fst (classify ex_open ''BHT*0019*00*XY'') = Some KeyError \<and>
   fst (classify ex_open ''BHT*0019'') = Some IndexError"
proof -
  have h1: "startswith ''BHT*0019*00*CF1234*20220101'' CLAIM_TYPE_SEGMENT" by code_simp
  have h2: "startswith ''BHT*0019*00*XY'' CLAIM_TYPE_SEGMENT" by code_simp
  have h3: "startswith ''BHT*0019'' CLAIM_TYPE_SEGMENT" by code_simp
  have s1: "str_split ELEMENT_DELIMITER ''BHT*0019*00*CF1234*20220101'' =
     [''BHT'', ''0019'', ''00'', ''CF1234'', ''20220101'']" by code_simp
  have s2: "str_split ELEMENT_DELIMITER ''BHT*0019*00*XY'' = [''BHT'', ''0019'', ''00'', ''XY'']"
    by code_simp
  have s3: "str_split ELEMENT_DELIMITER ''BHT*0019'' = [''BHT'', ''0019'']" by code_simp
  have t: "cur_claim_type ex_open = Some CE" by code_simp
  show ?thesis
    using type_segment_resolves_claim_type [OF h1, of ex_open]
      type_segment_resolves_claim_type [OF h2, of ex_open]
      type_segment_resolves_claim_type [OF h3, of ex_open] h1 t
    by (simp add: Let_def s1 s2 s3)
qed

section \<open>Opening the input file\<close>

text \<open>
  C7, as amended. If opening the input path raises FileNotFoundError or PermissionError,
  \<open>parse_input_file\<close> exits with the value of \<open>ERR_CANT_READ_FILE\<close>, which is 3, and the
  state is the one it was called with; the script run with \<open>verify\<close> or \<open>split\<close> on such a
  path exits with 3 and the state that \<open>init\<close> made.
\<close>

theorem unreadable_input_exits_before_parsing:
  assumes "open_r filename = Inl FileNotFoundError \<or> open_r filename = Inl PermissionError"
  shows "parse_input_file open_r filename st = (Some (SystemExit 3), st) \<and>
         handle_error ERR_CANT_READ_FILE = SystemExit 3 \<and>
         (filename \<noteq> [] \<longrightarrow>
            script open_r open_w (Verify (Some filename)) =
              (Some (SystemExit 3), init module_globals, [])) \<and>
         (filename \<noteq> [] \<and> \<not> falsy output_dir \<longrightarrow>
            script open_r open_w (Split (Some filename) output_dir) =
              (Some (SystemExit 3), init module_globals, []))"
  using assms
  by (auto simp: parse_input_file_def handle_error_def script_def verify_def split_def
      falsy_def arg_value_def except_Exception_def cli_call_def Let_def)

theorem unreadable_input_exits_before_parsing_witness:
  "fs_missing ''claims.edi'' = Inl FileNotFoundError \<and>
   parse_input_file fs_missing ''claims.edi'' (init module_globals) =
     (Some (SystemExit 3), init module_globals) \<and>
   script fs_missing fs_writable (Verify (Some ''claims.edi'')) =
     (Some (SystemExit 3), init module_globals, []) \<and>
   script fs_missing fs_writable (Split (Some ''claims.edi'') (Some ''out'')) =
     (Some (SystemExit 3), init module_globals, [])"
proof -
  have h: "fs_missing ''claims.edi'' = Inl FileNotFoundError \<or>
           fs_missing ''claims.edi'' = Inl PermissionError"
    by (simp add: fs_missing_def)
  show ?thesis
    using unreadable_input_exits_before_parsing
      [of fs_missing "''claims.edi''" "init module_globals" fs_writable "Some ''out''"] h
    by (simp add: fs_missing_def falsy_def)
qed

text \<open>
  C7 as stated fails for a path that cannot be opened for another reason: for a directory
  \<open>open\<close> raises IsADirectoryError, which the \<open>except\<close> clause of \<open>parse_input_file\<close> does
  not list, so \<open>parse_input_file\<close> ends with that exception and not with the exit code 3.
\<close>

theorem directory_input_is_not_caught:
  "fs_directory ''/tmp'' = Inl IsADirectoryError \<and>
   parse_input_file fs_directory ''/tmp'' (init module_globals) =
     (Some (OSError IsADirectoryError), init module_globals) \<and>
   fst (parse_input_file fs_directory ''/tmp'' (init module_globals)) \<noteq>
     Some (handle_error ERR_CANT_READ_FILE)"
  by (simp add: parse_input_file_def fs_directory_def handle_error_def)

section \<open>The classifier on a stream of segments\<close>

subsection \<open>Steps and loops\<close>

lemma parse_row_append:
  "parse_row st (xs @ ys) =
     (case parse_row st xs of (Some e, st') \<Rightarrow> (Some e, st') | (None, st') \<Rightarrow> parse_row st' ys)"
  by (induction xs arbitrary: st) (auto split: prod.splits option.splits)

lemma parse_rows_concat: "parse_rows st rows = parse_row st (concat rows)"
  by (induction rows arbitrary: st) (auto simp: parse_row_append split: prod.splits option.splits)

lemma parse_row_invariant:
  assumes step: "\<And>s a b. P a \<Longrightarrow> classify a s = (None, b) \<Longrightarrow> P b"
  shows "P st \<Longrightarrow> parse_row st segs = (None, st') \<Longrightarrow> P st'"
proof (induction segs arbitrary: st)
  case Nil
  then show ?case by simp
next
  case (Cons s segs)
  then show ?case
    by (auto split: prod.splits option.splits dest: step)
qed

lemma enter_parse_fields:
  "claims (enter_parse st) = claims st" "claim_counts (enter_parse st) = claim_counts st"
  "header (enter_parse st) = header st" "footer (enter_parse st) = footer st"
  "cur_claim_type (enter_parse st) = None"
  "heap (enter_parse st) (cur_claim_data (enter_parse st)) = []"
  by (simp_all add: enter_parse_def new_list_def)

lemma parse_input_file_ok:
  assumes "parse_input_file open_r filename st = (None, st')"
  shows "\<exists>content. open_r filename = Inr content \<and> snd (read_rows content) = False \<and>
           parse_row (enter_parse st) (segments content) = (None, st')"
  using assms
  by (auto simp: parse_input_file_def segments_def parse_rows_concat handle_error_def
      split: sum.splits os_error.splits prod.splits option.splits if_splits)

lemma classify_not_end_claims:
  "\<not> startswith s CLAIM_END_SEGMENT \<Longrightarrow> claims (snd (classify st s)) = claims st"
  by (simp add: classify_def Let_def new_list_def append_cur_def split: option.splits)

lemma classify_not_end_counts:
  "\<not> startswith s CLAIM_END_SEGMENT \<Longrightarrow> claim_counts (snd (classify st s)) = claim_counts st"
  by (simp add: classify_def Let_def new_list_def append_cur_def split: option.splits)

lemma classify_end_ok:
  assumes "startswith s CLAIM_END_SEGMENT" and "classify st s = (None, st')"
  shows "\<exists>n. claim_counts st (cur_claim_type st) = Some n \<and>
             claim_counts st' = (claim_counts st)(cur_claim_type st \<mapsto> Suc n) \<and>
             claims st' = claims st @ [\<lparr>claim_type = cur_claim_type st, data = cur_claim_data st\<rparr>]"
  using assms(2) by (auto simp: classify_end [OF assms(1)] Let_def append_cur_def split: option.splits)

lemma classify_not_type_cur_claim_type:
  "\<not> startswith s CLAIM_TYPE_SEGMENT \<Longrightarrow> cur_claim_type (snd (classify st s)) = cur_claim_type st"
  by (simp add: classify_def Let_def new_list_def append_cur_def split: option.splits)

lemma classify_not_end_no_error:
  "\<not> startswith s CLAIM_TYPE_SEGMENT \<Longrightarrow> \<not> startswith s CLAIM_END_SEGMENT \<Longrightarrow>
   fst (classify st s) = None"
  by (simp add: classify_def Let_def new_list_def append_cur_def split: option.splits)

lemma classify_counts_defined:
  "claim_counts st k = Some n \<Longrightarrow> \<exists>m. claim_counts (snd (classify st s)) k = Some m"
proof (cases "startswith s CLAIM_END_SEGMENT")
  case True
  then show "claim_counts st k = Some n \<Longrightarrow> ?thesis"
    by (auto simp: classify_end Let_def append_cur_def split: option.splits)
next
  case False
  then show "claim_counts st k = Some n \<Longrightarrow> ?thesis"
    by (simp add: classify_not_end_counts)
qed

lemma parse_row_counts_defined:
  "parse_row st segs = (None, st') \<Longrightarrow> claim_counts st k = Some n \<Longrightarrow>
   \<exists>m. claim_counts st' k = Some m"
proof (induction segs arbitrary: st n)
  case Nil
  then show ?case by simp
next
  case (Cons s segs)
  from Cons.prems(1) obtain st1 where
    st1: "classify st s = (None, st1)" and rest: "parse_row st1 segs = (None, st')"
    by (auto split: prod.splits option.splits)
  from classify_counts_defined [OF Cons.prems(2), of s] st1
  obtain m where "claim_counts st1 k = Some m" by auto
  from Cons.IH [OF rest this] show ?case .
qed

subsection \<open>Evaluating the examples\<close>

lemmas eval_simps = classify_def Let_def new_list_def append_cur_def enter_parse_def init_def
  module_globals_def startswith_def constant_defs ClaimType_members_def ClaimType_getitem_def
  str_split_def claim_data_def

lemma read_rows_ex_two_claims:
  "read_rows ex_two_claims =
     ([[''ISA*1'', ''ST*1'', ''BHT*0*0*CE'', ''SE*1'', ''ST*2'', ''BHT*0*0*CF'', ''SE*2'',
        ''GE*2'', '''']], False)"
  by code_simp

lemma read_rows_ex_no_start: "read_rows ex_no_start = ([[''BHT*0*0*CE'', ''SE*1'', '''']], False)"
  by code_simp

lemma read_rows_ex_trailing:
  "read_rows ex_trailing = ([[''ST*1'', ''BHT*0*0*CE'', ''SE*1'', ''XX'', '''']], False)"
  by code_simp

lemma read_rows_ex_no_type: "read_rows ex_no_type = ([[''ISA*1'', ''ST*1'', ''SE*1'', '''']], False)"
  by code_simp

lemma parse_ex_two_claims:
  "fst (parse_input_file (fs_content ex_two_claims) f (init module_globals)) = None"
  "header (snd (parse_input_file (fs_content ex_two_claims) f (init module_globals))) = [''ISA*1'']"
  "footer (snd (parse_input_file (fs_content ex_two_claims) f (init module_globals))) = [''GE*2'']"
  "map (\<lambda>c. (claim_type c, claim_data (snd (parse_input_file (fs_content ex_two_claims) f (init module_globals))) c))
     (claims (snd (parse_input_file (fs_content ex_two_claims) f (init module_globals)))) =
     [(Some CE, [''ST*1'', ''BHT*0*0*CE'', ''SE*1'']), (Some CF, [''ST*2'', ''BHT*0*0*CF'', ''SE*2''])]"
  "claim_counts (snd (parse_input_file (fs_content ex_two_claims) f (init module_globals)))
     (Some CE) = Some 1"
  "claim_counts (snd (parse_input_file (fs_content ex_two_claims) f (init module_globals)))
     (Some CF) = Some 1"
  by (simp_all add: parse_input_file_def fs_content_def read_rows_ex_two_claims eval_simps)

lemma read_rows_ex_bare_footer:
  "read_rows ex_bare_footer = ([[''ISA*1'', ''ST*1'', ''BHT*0*0*CE'', ''SE*1'', ''GE'', '''']], False)"
  by code_simp

lemma str_nat_1: "str_nat (Suc 0) = ''1''"
  by (simp add: str_nat.simps digit_char_def)

subsection \<open>Counts and claims\<close>

lemma counts_match_classify:
  assumes "counts_match st" and "classify st s = (None, st')"
  shows "counts_match st'"
proof (cases "startswith s CLAIM_END_SEGMENT")
  case True
  from classify_end_ok [OF True assms(2)] obtain n where
    n: "claim_counts st (cur_claim_type st) = Some n"
       "claim_counts st' = (claim_counts st)(cur_claim_type st \<mapsto> Suc n)"
       "claims st' = claims st @ [\<lparr>claim_type = cur_claim_type st, data = cur_claim_data st\<rparr>]"
    by blast
  from n(1) assms(1) obtain t where t: "cur_claim_type st = Some t"
    by (cases "cur_claim_type st") (auto simp: counts_match_def)
  show ?thesis
    using assms(1) n t by (cases t) (auto simp: counts_match_def)
next
  case False
  from classify_not_end_claims [OF False, of st] classify_not_end_counts [OF False, of st]
  show ?thesis using assms by (simp add: counts_match_def)
qed

lemma classify_claims_length:
  assumes "classify st s = (None, st')"
  shows "length (claims st') = length (claims st) + (if startswith s CLAIM_END_SEGMENT then 1 else 0)"
proof (cases "startswith s CLAIM_END_SEGMENT")
  case True
  from classify_end_ok [OF True assms] show ?thesis using True by auto
next
  case False
  from classify_not_end_claims [OF False, of st] show ?thesis using assms False by simp
qed

lemma parse_row_claims_length:
  "parse_row st segs = (None, st') \<Longrightarrow>
   length (claims st') = length (claims st) + length (filter (\<lambda>s. startswith s CLAIM_END_SEGMENT) segs)"
proof (induction segs arbitrary: st)
  case Nil
  then show ?case by simp
next
  case (Cons s segs)
  from Cons.prems obtain st1 where
    st1: "classify st s = (None, st1)" and rest: "parse_row st1 segs = (None, st')"
    by (auto split: prod.splits option.splits)
  from Cons.IH [OF rest] classify_claims_length [OF st1] show ?case by simp
qed

lemma start_not_end: "startswith s CLAIM_START_SEGMENT \<Longrightarrow> \<not> startswith s CLAIM_END_SEGMENT"
  by (auto simp: startswith_ST startswith_SE)

lemma well_formed_claim_pairs:
  "well_formed opened segs \<Longrightarrow>
   claim_pairs opened segs = length (filter (\<lambda>s. startswith s CLAIM_END_SEGMENT) segs)"
  by (induction segs arbitrary: opened) (auto simp: start_not_end split: if_splits)

text \<open>
  C3. When \<open>parse_input_file\<close> returns, having started with an empty claims list and a
  zero count for each claim type, the counts of the two claim types sum to the length of
  the claims list. That number is the number of segments with the claim-end prefix in
  the file, and for a well-formed file the number of start/end pairs.
\<close>

theorem counts_sum_to_number_of_claims:
  assumes "parse_input_file open_r filename st = (None, st')"
    and "claims st = []"
    and "claim_counts st None = None"
    and "claim_counts st (Some CE) = Some 0" and "claim_counts st (Some CF) = Some 0"
  shows "\<exists>ce cf content.
           claim_counts st' (Some CE) = Some ce \<and> claim_counts st' (Some CF) = Some cf \<and>
           ce + cf = length (claims st') \<and>
           open_r filename = Inr content \<and>
           length (claims st') =
             length (filter (\<lambda>s. startswith s CLAIM_END_SEGMENT) (segments content)) \<and>
           (well_formed False (segments content) \<longrightarrow>
              ce + cf = claim_pairs False (segments content))"
proof -
  from parse_input_file_ok [OF assms(1)] obtain content where
    c: "open_r filename = Inr content"
       "parse_row (enter_parse st) (segments content) = (None, st')"
    by blast
  have "counts_match (enter_parse st)"
    using assms(2-5) by (simp add: counts_match_def enter_parse_fields)
  then have "counts_match st'"
    using c(2) by (rule parse_row_invariant [where P = counts_match, rotated 1])
      (rule counts_match_classify)
  moreover have "length (claims st') =
      length (filter (\<lambda>s. startswith s CLAIM_END_SEGMENT) (segments content))"
    using parse_row_claims_length [OF c(2)] assms(2) by (simp add: enter_parse_fields)
  ultimately show ?thesis
    using c(1) by (auto simp: counts_match_def well_formed_claim_pairs)
qed

theorem counts_sum_to_number_of_claims_witness:
  "fst (parse_input_file (fs_content ex_two_claims) ''claims.edi'' (init module_globals)) = None \<and>
   well_formed False (segments ex_two_claims) \<and>
   claim_pairs False (segments ex_two_claims) = 2 \<and>
   claim_counts (snd (parse_input_file (fs_content ex_two_claims) ''claims.edi'' (init module_globals)))
     (Some CE) = Some 1 \<and>
   claim_counts (snd (parse_input_file (fs_content ex_two_claims) ''claims.edi'' (init module_globals)))
     (Some CF) = Some 1 \<and>
   length (claims (snd (parse_input_file (fs_content ex_two_claims) ''claims.edi'' (init module_globals))))
     = claim_pairs False (segments ex_two_claims)"
proof -
  let ?r = "parse_input_file (fs_content ex_two_claims) ''claims.edi'' (init module_globals)"
  have ok: "fst ?r = None" by (rule parse_ex_two_claims)
  then have h1: "?r = (None, snd ?r)" by (simp add: prod_eq_iff)
  have h2: "claims (init module_globals) = []"
    and h3: "claim_counts (init module_globals) None = None"
    and h4: "claim_counts (init module_globals) (Some CE) = Some 0"
    and h5: "claim_counts (init module_globals) (Some CF) = Some 0"
    by (simp_all add: init_def module_globals_def ClaimType_members_def)
  have wf: "well_formed False (segments ex_two_claims)"
    by (simp add: segments_def read_rows_ex_two_claims startswith_def constant_defs)
  have p: "claim_pairs False (segments ex_two_claims) = 2"
    by (simp add: segments_def read_rows_ex_two_claims startswith_def constant_defs)
  from counts_sum_to_number_of_claims [OF h1 h2 h3 h4 h5]
  obtain ce' cf' content where
    "claim_counts (snd ?r) (Some CE) = Some ce'" "claim_counts (snd ?r) (Some CF) = Some cf'"
    "ce' + cf' = length (claims (snd ?r))"
    "fs_content ex_two_claims ''claims.edi'' = Inr content"
    "well_formed False (segments content) \<longrightarrow> ce' + cf' = claim_pairs False (segments content)"
    by blast
  then have "length (claims (snd ?r)) = claim_pairs False (segments ex_two_claims)"
    using wf by (auto simp: fs_content_def)
  moreover have "claim_counts (snd ?r) (Some CE) = Some 1" "claim_counts (snd ?r) (Some CF) = Some 1"
    by (simp_all add: parse_ex_two_claims)
  ultimately show ?thesis using ok wf p by simp
qed

subsection \<open>A claim-end segment before any type\<close>

lemma classify_end_untyped:
  assumes "startswith s CLAIM_END_SEGMENT" and "cur_claim_type st = None"
    and "claim_counts st None = None"
  shows "fst (classify st s) = Some KeyError"
  using assms(2,3) by (simp add: classify_end [OF assms(1)] Let_def)

lemma parse_row_untyped_end:
  assumes "startswith segment CLAIM_END_SEGMENT"
  shows "cur_claim_type st = None \<Longrightarrow> claim_counts st None = None \<Longrightarrow>
         list_all (\<lambda>s. \<not> startswith s CLAIM_TYPE_SEGMENT) pre \<Longrightarrow>
         fst (parse_row st (pre @ segment # post)) = Some KeyError"
proof (induction pre arbitrary: st)
  case Nil
  from classify_end_untyped [OF assms Nil(1,2)] show ?case
    by (auto split: prod.splits option.splits)
next
  case (Cons m pre)
  show ?case
  proof (cases "startswith m CLAIM_END_SEGMENT")
    case True
    from classify_end_untyped [OF True Cons.prems(1,2)] show ?thesis
      by (auto split: prod.splits option.splits)
  next
    case False
    from Cons.prems(3) have m: "\<not> startswith m CLAIM_TYPE_SEGMENT"
      and pre: "list_all (\<lambda>s. \<not> startswith s CLAIM_TYPE_SEGMENT) pre" by simp_all
    obtain st1 where st1: "classify st m = (None, st1)"
      using classify_not_end_no_error [OF m False, of st] by (cases "classify st m") auto
    have "cur_claim_type st1 = None" "claim_counts st1 None = None"
      using classify_not_type_cur_claim_type [OF m, of st]
        classify_not_end_counts [OF False, of st] st1 Cons.prems(1,2) by simp_all
    from Cons.IH [OF this pre] st1 show ?thesis by simp
  qed
qed

text \<open>
  C8. If the file has a segment with the claim-end prefix \<open>SE\<close> and no segment with the
  prefix \<open>BHT\<close> before it, \<open>parse_input_file\<close> raises KeyError: the count is looked up
  under \<open>None\<close>, which is not a key of \<open>claim_counts\<close>. Put the other way round, the
  claim-end step returns without error only when a type has been resolved.
\<close>

theorem claim_end_before_type_raises_KeyError:
  assumes "open_r filename = Inr content"
    and "segments content = pre @ segment # post"
    and "list_all (\<lambda>s. \<not> startswith s CLAIM_TYPE_SEGMENT) pre"
    and "startswith segment CLAIM_END_SEGMENT"
    and "claim_counts st None = None"
  shows "fst (parse_input_file open_r filename st) = Some KeyError \<and>
         (\<forall>st1. claim_counts st1 None = None \<and> fst (classify st1 segment) = None
                \<longrightarrow> cur_claim_type st1 \<noteq> None)"
proof -
  have "fst (parse_row (enter_parse st) (segments content)) = Some KeyError"
    unfolding assms(2)
    by (rule parse_row_untyped_end [OF assms(4) _ _ assms(3)])
      (simp_all add: enter_parse_fields assms(5))
  then have "fst (parse_input_file open_r filename st) = Some KeyError"
    by (auto simp: parse_input_file_def assms(1) segments_def parse_rows_concat
        split: prod.splits option.splits)
  moreover have "\<forall>st1. claim_counts st1 None = None \<and> fst (classify st1 segment) = None
                \<longrightarrow> cur_claim_type st1 \<noteq> None"
    using classify_end_untyped [OF assms(4)] by fastforce
  ultimately show ?thesis by simp
qed

theorem claim_end_before_type_raises_KeyError_witness:
  "fs_content ex_no_type ''claims.edi'' = Inr ex_no_type \<and>
   segments ex_no_type = [''ISA*1'', ''ST*1''] @ ''SE*1'' # [''''] \<and>
   startswith ''SE*1'' CLAIM_END_SEGMENT \<and>
   claim_counts (init module_globals) None = None \<and>
   fst (parse_input_file (fs_content ex_no_type) ''claims.edi'' (init module_globals)) = Some KeyError"
proof -
  have h1: "fs_content ex_no_type ''claims.edi'' = Inr ex_no_type" by (simp add: fs_content_def)
  have h2: "segments ex_no_type = [''ISA*1'', ''ST*1''] @ ''SE*1'' # ['''']"
    by (simp add: segments_def read_rows_ex_no_type)
  have h3: "list_all (\<lambda>s. \<not> startswith s CLAIM_TYPE_SEGMENT) [''ISA*1'', ''ST*1'']"
    by (simp add: startswith_def constant_defs)
  have h4: "startswith ''SE*1'' CLAIM_END_SEGMENT" by (simp add: startswith_def constant_defs)
  have h5: "claim_counts (init module_globals) None = None"
    by (simp add: init_def module_globals_def ClaimType_members_def)
  from claim_end_before_type_raises_KeyError
         [where open_r = "fs_content ex_no_type" and filename = "''claims.edi''"
           and pre = "[''ISA*1'', ''ST*1'']" and post = "['''']", OF h1 h2 h3 h4 h5] h1 h2 h4 h5
  show ?thesis by simp
qed

subsection \<open>The type of a claim with no type segment\<close>

lemma classify_typed_step:
  assumes "\<not> startswith s CLAIM_TYPE_SEGMENT" and "cur_claim_type st = Some t"
    and "claim_counts st (Some t) = Some n"
  shows "\<exists>st1 m. classify st s = (None, st1) \<and> cur_claim_type st1 = Some t \<and>
                  claim_counts st1 (Some t) = Some m"
proof (cases "startswith s CLAIM_END_SEGMENT")
  case True
  then show ?thesis using assms(2,3)
    by (simp add: classify_end Let_def append_cur_def)
next
  case False
  obtain st1 where st1: "classify st s = (None, st1)"
    using classify_not_end_no_error [OF assms(1) False, of st] by (cases "classify st s") auto
  then show ?thesis
    using classify_not_type_cur_claim_type [OF assms(1), of st]
      classify_not_end_counts [OF False, of st] assms(2,3) by simp
qed

lemma parse_row_typed:
  "list_all (\<lambda>s. \<not> startswith s CLAIM_TYPE_SEGMENT) mid \<Longrightarrow> cur_claim_type st = Some t \<Longrightarrow>
   claim_counts st (Some t) = Some n \<Longrightarrow>
   \<exists>st1 m. parse_row st mid = (None, st1) \<and> cur_claim_type st1 = Some t \<and>
            claim_counts st1 (Some t) = Some m"
proof (induction mid arbitrary: st n)
  case Nil
  then show ?case by simp
next
  case (Cons s mid)
  from Cons.prems(1) have s: "\<not> startswith s CLAIM_TYPE_SEGMENT"
    and mid: "list_all (\<lambda>s. \<not> startswith s CLAIM_TYPE_SEGMENT) mid" by simp_all
  from classify_typed_step [OF s Cons.prems(2,3)] obtain st1 m where
    st1: "classify st s = (None, st1)" "cur_claim_type st1 = Some t"
         "claim_counts st1 (Some t) = Some m" by blast
  from Cons.IH [OF mid st1(2,3)] st1(1) show ?case by simp
qed

text \<open>
  C9. Sealing a claim and starting a buffer leave \<open>cur_claim_type\<close> alone. After a
  \<open>BHT\<close> segment that resolves to the type \<open>t\<close>, whatever follows without another \<open>BHT\<close>
  segment (claim-end and claim-start segments included) is read without error, and the
  next claim-end segment seals its claim with the type \<open>t\<close> and adds one to the count of
  \<open>t\<close>; the type is still \<open>t\<close> afterwards.
\<close>

theorem claim_without_type_segment_inherits_type:
  assumes "parse_row (enter_parse st) pre = (None, st0)"
    and "startswith b CLAIM_TYPE_SEGMENT"
    and "3 < length (str_split ELEMENT_DELIMITER b)"
    and "take 2 (str_split ELEMENT_DELIMITER b ! 3) = ClaimType_name t"
    and "list_all (\<lambda>s. \<not> startswith s CLAIM_TYPE_SEGMENT) mid"
    and "startswith segment CLAIM_END_SEGMENT"
    and "claim_counts st (Some t) = Some n0"
  shows "\<exists>st1 st2 n.
           parse_row (enter_parse st) (pre @ b # mid) = (None, st1) \<and>
           claim_counts st1 (Some t) = Some n \<and>
           classify st1 segment = (None, st2) \<and>
           claims st2 = claims st1 @ [\<lparr>claim_type = Some t, data = cur_claim_data st1\<rparr>] \<and>
           claim_counts st2 (Some t) = Some (Suc n) \<and>
           cur_claim_type st2 = Some t"
proof -
  from parse_row_counts_defined [OF assms(1)] assms(7)
  obtain n1 where n1: "claim_counts st0 (Some t) = Some n1"
    by (auto simp: enter_parse_fields)
  have g: "ClaimType_getitem (take 2 (str_split ELEMENT_DELIMITER b ! 3)) = Some t"
    by (simp add: ClaimType_getitem_name assms(4))
  have b: "classify st0 b = (None, (append_cur b st0)\<lparr>cur_claim_type := Some t\<rparr>)"
    using assms(3) g by (simp add: classify_type [OF assms(2)] Let_def CLAIM_TYPE_ELEMENT_NUM_def)
  have "cur_claim_type ((append_cur b st0)\<lparr>cur_claim_type := Some t\<rparr>) = Some t"
    "claim_counts ((append_cur b st0)\<lparr>cur_claim_type := Some t\<rparr>) (Some t) = Some n1"
    using n1 by (simp_all add: append_cur_def)
  from parse_row_typed [OF assms(5) this] obtain st1 n where
    st1: "parse_row ((append_cur b st0)\<lparr>cur_claim_type := Some t\<rparr>) mid = (None, st1)"
         "cur_claim_type st1 = Some t" "claim_counts st1 (Some t) = Some n" by blast
  have whole: "parse_row (enter_parse st) (pre @ b # mid) = (None, st1)"
    using assms(1) b st1(1) by (simp add: parse_row_append)
  show ?thesis
    using whole st1(2,3)
    by (simp add: classify_end [OF assms(6)] Let_def append_cur_def)
qed

theorem claim_without_type_segment_inherits_type_witness:
  "fst (parse_row (enter_parse (init module_globals)) [''ST*1'']) = None \<and>
   str_split ELEMENT_DELIMITER ''BHT*0*0*CF'' = [''BHT'', ''0'', ''0'', ''CF''] \<and>
   fst (parse_row (enter_parse (init module_globals))
          ([''ST*1''] @ ''BHT*0*0*CF'' # [''SE*1'', ''ST*2'', ''NM1*x''] @ [''SE*2''])) = None \<and>
   map claim_type
     (claims (snd (parse_row (enter_parse (init module_globals))
          ([''ST*1''] @ ''BHT*0*0*CF'' # [''SE*1'', ''ST*2'', ''NM1*x''] @ [''SE*2''])))) =
     [Some CF, Some CF] \<and>
   claim_counts (snd (parse_row (enter_parse (init module_globals))
          ([''ST*1''] @ ''BHT*0*0*CF'' # [''SE*1'', ''ST*2'', ''NM1*x''] @ [''SE*2''])))
     (Some CF) = Some 2"
proof -
  let ?st = "init module_globals"
  let ?mid = "[''SE*1'', ''ST*2'', ''NM1*x'']"
  have ok: "fst (parse_row (enter_parse ?st) [''ST*1'']) = None"
    by (simp add: eval_simps)
  then have h1: "parse_row (enter_parse ?st) [''ST*1''] =
              (None, snd (parse_row (enter_parse ?st) [''ST*1'']))"
    by (simp add: prod_eq_iff)
  have h2: "startswith ''BHT*0*0*CF'' CLAIM_TYPE_SEGMENT" by (simp add: startswith_def constant_defs)
  have s: "str_split ELEMENT_DELIMITER ''BHT*0*0*CF'' = [''BHT'', ''0'', ''0'', ''CF'']"
    by (simp add: str_split_def constant_defs)
  have h3: "3 < length (str_split ELEMENT_DELIMITER ''BHT*0*0*CF'')" by (simp add: s)
  have h4: "take 2 (str_split ELEMENT_DELIMITER ''BHT*0*0*CF'' ! 3) = ClaimType_name CF"
    by (simp add: s)
  have h5: "list_all (\<lambda>s. \<not> startswith s CLAIM_TYPE_SEGMENT) ?mid"
    by (simp add: startswith_def constant_defs)
  have h6: "startswith ''SE*2'' CLAIM_END_SEGMENT" by (simp add: startswith_def constant_defs)
  have h7: "claim_counts ?st (Some CF) = Some 0"
    by (simp add: init_def module_globals_def ClaimType_members_def)
  from claim_without_type_segment_inherits_type [OF h1 h2 h3 h4 h5 h6 h7]
  obtain st1 st2 n where
    r: "parse_row (enter_parse ?st) ([''ST*1''] @ ''BHT*0*0*CF'' # ?mid) = (None, st1)"
       "claim_counts st1 (Some CF) = Some n"
       "classify st1 ''SE*2'' = (None, st2)"
       "claims st2 = claims st1 @ [\<lparr>claim_type = Some CF, data = cur_claim_data st1\<rparr>]"
       "claim_counts st2 (Some CF) = Some (Suc n)"
    by blast
  have whole: "parse_row (enter_parse ?st) (([''ST*1''] @ ''BHT*0*0*CF'' # ?mid) @ [''SE*2'']) = (None, st2)"
    using r(1,3) by (simp only: parse_row_append) simp
  have st1: "map claim_type (claims st1) = [Some CF]" "claim_counts st1 (Some CF) = Some 1"
    using r(1) by (auto simp: eval_simps)
  have "map claim_type (claims st2) = [Some CF, Some CF]" "claim_counts st2 (Some CF) = Some 2"
    using r(2,4,5) st1 by simp_all
  with whole ok s show ?thesis by (simp del: parse_row.simps)
qed

subsection \<open>The segments of a sealed claim\<close>

lemma buffer_started_classify:
  assumes "classify st s = (None, st')"
    and "buffer_started st \<or> startswith s CLAIM_START_SEGMENT"
  shows "buffer_started st'"
proof (cases "startswith s CLAIM_START_SEGMENT")
  case True
  then show ?thesis using assms(1)
    by (auto simp: classify_start buffer_started_def)
next
  case False
  with assms(2) have "buffer_started st" by simp
  then show ?thesis using assms(1) False
    by (auto simp: classify_def Let_def append_cur_def buffer_started_def
        split: if_splits option.splits)
qed

lemma buffer_started_parse_row:
  "parse_row st pre = (None, st') \<Longrightarrow>
   buffer_started st \<or> list_ex (\<lambda>s. startswith s CLAIM_START_SEGMENT) pre \<Longrightarrow>
   buffer_started st'"
proof (induction pre arbitrary: st)
  case Nil
  then show ?case by simp
next
  case (Cons s pre)
  from Cons.prems(1) obtain st1 where
    st1: "classify st s = (None, st1)" and rest: "parse_row st1 pre = (None, st')"
    by (auto split: prod.splits option.splits)
  show ?case
  proof (cases "buffer_started st \<or> startswith s CLAIM_START_SEGMENT")
    case True
    from buffer_started_classify [OF st1 True] Cons.IH [OF rest] show ?thesis by simp
  next
    case False
    with Cons.prems(2) have "list_ex (\<lambda>s. startswith s CLAIM_START_SEGMENT) pre" by simp
    with Cons.IH [OF rest] show ?thesis by simp
  qed
qed

text \<open>
  C4, as amended. When a claim-end segment is read, the claim appended to the claims list
  holds, at that moment, a non-empty list whose last segment is this claim-end segment;
  its first segment has the claim-start prefix \<open>ST\<close> if a claim-start segment came earlier
  in the stream. (The list stays the current buffer, so later segments can still be
  appended to it.)
\<close>

theorem sealed_claim_ends_with_end_segment:
  assumes "parse_row (enter_parse st) pre = (None, st1)"
    and "startswith segment CLAIM_END_SEGMENT"
  shows "(let st2 = snd (classify st1 segment); c = last (claims st2) in
            claims st2 = claims st1 @ [c] \<and>
            claim_data st2 c \<noteq> [] \<and>
            last (claim_data st2 c) = segment \<and>
            startswith (last (claim_data st2 c)) CLAIM_END_SEGMENT \<and>
            (list_ex (\<lambda>s. startswith s CLAIM_START_SEGMENT) pre \<longrightarrow>
               startswith (hd (claim_data st2 c)) CLAIM_START_SEGMENT))"
proof -
  have "list_ex (\<lambda>s. startswith s CLAIM_START_SEGMENT) pre \<Longrightarrow> buffer_started st1"
    using buffer_started_parse_row [OF assms(1)] by simp
  then show ?thesis
    using assms(2)
    by (auto simp: classify_end [OF assms(2)] Let_def append_cur_def claim_data_def
        buffer_started_def split: option.splits)
qed

theorem sealed_claim_ends_with_end_segment_witness:
  "parse_row (enter_parse (init module_globals)) [''ST*1'', ''BHT*0019*00*CE''] = (None, ex_open) \<and>
   startswith ''SE*1'' CLAIM_END_SEGMENT \<and>
   list_ex (\<lambda>s. startswith s CLAIM_START_SEGMENT) [''ST*1'', ''BHT*0019*00*CE''] \<and>
   claim_data (snd (classify ex_open ''SE*1'')) (last (claims (snd (classify ex_open ''SE*1'')))) =
     [''ST*1'', ''BHT*0019*00*CE'', ''SE*1''] \<and>
   startswith (hd (claim_data (snd (classify ex_open ''SE*1''))
                     (last (claims (snd (classify ex_open ''SE*1'')))))) CLAIM_START_SEGMENT \<and>
   startswith (last (claim_data (snd (classify ex_open ''SE*1''))
                     (last (claims (snd (classify ex_open ''SE*1'')))))) CLAIM_END_SEGMENT"
proof -
  have h1: "parse_row (enter_parse (init module_globals)) [''ST*1'', ''BHT*0019*00*CE''] = (None, ex_open)"
    by (simp add: ex_open_def eval_simps)
  have h2: "startswith ''SE*1'' CLAIM_END_SEGMENT" by (simp add: startswith_def constant_defs)
  have h3: "list_ex (\<lambda>s. startswith s CLAIM_START_SEGMENT) [''ST*1'', ''BHT*0019*00*CE'']"
    by (simp add: startswith_def constant_defs)
  have d: "claim_data (snd (classify ex_open ''SE*1'')) (last (claims (snd (classify ex_open ''SE*1'')))) =
     [''ST*1'', ''BHT*0019*00*CE'', ''SE*1'']"
    by (simp add: ex_open_def eval_simps)
  have f: "startswith (hd (claim_data (snd (classify ex_open ''SE*1''))
                     (last (claims (snd (classify ex_open ''SE*1'')))))) CLAIM_START_SEGMENT"
    using sealed_claim_ends_with_end_segment [OF h1 h2] h3 unfolding Let_def by blast
  have l: "startswith (last (claim_data (snd (classify ex_open ''SE*1''))
                     (last (claims (snd (classify ex_open ''SE*1'')))))) CLAIM_END_SEGMENT"
    using sealed_claim_ends_with_end_segment [OF h1 h2] unfolding Let_def by blast
  show ?thesis by (intro conjI h1 h2 h3 d f l)
qed

text \<open>
  C4 as stated fails on a file whose claim has no start segment: the file is parsed
  without error and the first segment of its one claim is the \<open>BHT\<close> segment. It also
  fails, for the claims list as \<open>parse_input_file\<close> leaves it, on a file with a stray
  segment after the claim-end segment: the segment is appended to the list that the
  sealed claim holds, whose last segment is then not a claim-end segment.
\<close>

theorem claim_without_start_segment:
  "fst (parse_input_file (fs_content ex_no_start) ''claims.edi'' (init module_globals)) = None \<and>
   map (claim_data (snd (parse_input_file (fs_content ex_no_start) ''claims.edi'' (init module_globals))))
     (claims (snd (parse_input_file (fs_content ex_no_start) ''claims.edi'' (init module_globals)))) =
     [[''BHT*0*0*CE'', ''SE*1'']] \<and>
   \<not> startswith ''BHT*0*0*CE'' CLAIM_START_SEGMENT \<and>
   fst (parse_input_file (fs_content ex_trailing) ''claims.edi'' (init module_globals)) = None \<and>
   map (claim_data (snd (parse_input_file (fs_content ex_trailing) ''claims.edi'' (init module_globals))))
     (claims (snd (parse_input_file (fs_content ex_trailing) ''claims.edi'' (init module_globals)))) =
     [[''ST*1'', ''BHT*0*0*CE'', ''SE*1'', ''XX'']] \<and>
   \<not> startswith ''XX'' CLAIM_END_SEGMENT"
  by (simp add: parse_input_file_def fs_content_def read_rows_ex_no_start read_rows_ex_trailing
      eval_simps)

section \<open>Writing the output files\<close>

lemma write_claims_eq:
  "write_claims st t cs out =
     out @ concat (map (\<lambda>c. ''~'' @ str_join ''~'' (claim_data st c))
                     (filter (\<lambda>c. claim_type c = Some t) cs))"
  by (induction cs arbitrary: out) (simp_all add: SEGMENT_DELIMITER_def)

lemma length_split_where: "length (split_where P s) = Suc (length (filter P s))"
  by (induction s) (auto split: list.splits)

lemma write_footer_eq:
  "list_all (\<lambda>s. startswith s FOOTER_CLAIM_COUNT_SEGMENT \<longrightarrow> ELEMENT_DELIMITER \<in> set s) segs \<Longrightarrow>
   write_footer n segs out = (None, out @ concat (map (\<lambda>s. ''~'' @ count_rewrite n s) segs))"
proof (induction segs arbitrary: out)
  case Nil
  then show ?case by simp
next
  case (Cons s segs)
  from Cons.prems have
    s: "startswith s FOOTER_CLAIM_COUNT_SEGMENT \<Longrightarrow> ELEMENT_DELIMITER \<in> set s"
    and rest: "list_all (\<lambda>s. startswith s FOOTER_CLAIM_COUNT_SEGMENT \<longrightarrow> ELEMENT_DELIMITER \<in> set s) segs"
    by simp_all
  have len: "startswith s FOOTER_CLAIM_COUNT_SEGMENT \<Longrightarrow>
             CLAIM_COUNT_ELEMENT_NUM < length (str_split ELEMENT_DELIMITER s)"
  proof -
    assume "startswith s FOOTER_CLAIM_COUNT_SEGMENT"
    from s [OF this] have "filter (\<lambda>c. c = ELEMENT_DELIMITER) s \<noteq> []"
      by (auto simp: filter_empty_conv)
    then show ?thesis
      by (cases "filter (\<lambda>c. c = ELEMENT_DELIMITER) s")
        (simp_all add: str_split_def length_split_where CLAIM_COUNT_ELEMENT_NUM_def)
  qed
  show ?case
    using len by (simp add: Cons.IH [OF rest] Let_def count_rewrite_def constant_defs)
qed

lemma write_output_file_zero:
  "claim_counts st (Some t) = Some 0 \<Longrightarrow>
   write_output_file open_w st output_dir t prefix suffix = (None, None)"
  by (simp add: write_output_file_def)

lemma write_output_file_opened:
  assumes "claim_counts st (Some t) = Some n" and "0 < n"
    and "open_w (output_filename output_dir t prefix suffix) = None"
  shows "\<exists>e out. write_output_file open_w st output_dir t prefix suffix =
                   (e, Some (output_filename output_dir t prefix suffix, out))"
  using assms by (simp add: write_output_file_def Let_def split: prod.splits)

lemma write_output_file_only_if:
  assumes "claim_counts st (Some t) = Some n"
    and "snd (write_output_file open_w st output_dir t prefix suffix) \<noteq> None"
  shows "0 < n"
  using assms by (cases n) (simp_all add: write_output_file_def)

lemma write_output_file_complete:
  assumes "claim_counts st (Some t) = Some n"
    and "open_w (output_filename output_dir t prefix suffix) = None"
    and "list_all (\<lambda>s. startswith s FOOTER_CLAIM_COUNT_SEGMENT \<longrightarrow> ELEMENT_DELIMITER \<in> set s)
           (footer st)"
  shows "write_output_file open_w st output_dir t prefix suffix =
           (None, if 0 < n
                  then Some (output_filename output_dir t prefix suffix, expected_content st t n)
                  else None)"
  using assms(1,2)
  by (simp add: write_output_file_def Let_def write_claims_eq write_footer_eq [OF assms(3)]
      expected_content_def SEGMENT_DELIMITER_def)

lemma parse_ex_bare_footer:
  "claim_counts (snd (parse_input_file (fs_content ex_bare_footer) f (init module_globals)))
     (Some CE) = Some 1"
  by (simp add: parse_input_file_def fs_content_def read_rows_ex_bare_footer eval_simps)

text \<open>
  C1, as amended. For a state in which \<open>claim_counts\<close> holds a count \<open>n\<close> for the claim
  type: with \<open>n = 0\<close> \<open>write_output_file\<close> does nothing; it opens a file only if \<open>n > 0\<close>;
  and when the target can be opened for writing, it opens the file if and only if
  \<open>n > 0\<close>, whatever the footer holds. If moreover every footer segment with the prefix
  \<open>GE\<close> contains a \<open>*\<close>, the call raises nothing and the text written is the one the
  specification words: header joined by \<open>~\<close>, then \<open>~\<close> and the joined segments of each
  claim of the type in list order, then \<open>~\<close> and each footer segment, the \<open>GE\<close> segments
  with element 1 replaced by the decimal count.
\<close>

theorem write_output_file_content:
  assumes "claim_counts st (Some t) = Some n"
  shows "(n = 0 \<longrightarrow> write_output_file open_w st output_dir t prefix suffix = (None, None)) \<and>
         (snd (write_output_file open_w st output_dir t prefix suffix) \<noteq> None \<longrightarrow> 0 < n) \<and>
         (open_w (output_filename output_dir t prefix suffix) = None \<longrightarrow>
            (snd (write_output_file open_w st output_dir t prefix suffix) \<noteq> None) = (0 < n) \<and>
            (0 < n \<longrightarrow>
               (\<exists>e out. write_output_file open_w st output_dir t prefix suffix =
                          (e, Some (output_filename output_dir t prefix suffix, out))))) \<and>
         (open_w (output_filename output_dir t prefix suffix) = None \<and>
          list_all (\<lambda>s. startswith s FOOTER_CLAIM_COUNT_SEGMENT \<longrightarrow> ELEMENT_DELIMITER \<in> set s)
            (footer st) \<longrightarrow>
            write_output_file open_w st output_dir t prefix suffix =
              (None, if 0 < n
                     then Some (output_filename output_dir t prefix suffix, expected_content st t n)
                     else None))"
proof (intro conjI impI)
  assume "n = 0"
  with assms show "write_output_file open_w st output_dir t prefix suffix = (None, None)"
    by (simp add: write_output_file_zero)
next
  assume "snd (write_output_file open_w st output_dir t prefix suffix) \<noteq> None"
  with assms show "0 < n" by (rule write_output_file_only_if)
next
  assume o: "open_w (output_filename output_dir t prefix suffix) = None"
  show "(snd (write_output_file open_w st output_dir t prefix suffix) \<noteq> None) = (0 < n)"
  proof
    assume "snd (write_output_file open_w st output_dir t prefix suffix) \<noteq> None"
    with assms show "0 < n" by (rule write_output_file_only_if)
  next
    assume "0 < n"
    from write_output_file_opened [where open_w = open_w, OF assms this o]
    show "snd (write_output_file open_w st output_dir t prefix suffix) \<noteq> None" by auto
  qed
next
  assume "open_w (output_filename output_dir t prefix suffix) = None" and "0 < n"
  with assms show "\<exists>e out. write_output_file open_w st output_dir t prefix suffix =
                          (e, Some (output_filename output_dir t prefix suffix, out))"
    by (simp add: write_output_file_opened)
next
  assume "open_w (output_filename output_dir t prefix suffix) = None \<and>
          list_all (\<lambda>s. startswith s FOOTER_CLAIM_COUNT_SEGMENT \<longrightarrow> ELEMENT_DELIMITER \<in> set s)
            (footer st)"
  with assms show "write_output_file open_w st output_dir t prefix suffix =
              (None, if 0 < n
                     then Some (output_filename output_dir t prefix suffix, expected_content st t n)
                     else None)"
    by (simp add: write_output_file_complete)
qed

theorem write_output_file_content_witness:
  "claim_counts (snd (parse_input_file (fs_content ex_two_claims) ''claims.edi'' (init module_globals)))
     (Some CE) = Some 1 \<and>
   write_output_file fs_writable
     (snd (parse_input_file (fs_content ex_two_claims) ''claims.edi'' (init module_globals)))
     ''out'' CE ''claims'' ''.edi'' =
     (None, Some (''out/claims_CE.edi'', ''ISA*1~ST*1~BHT*0*0*CE~SE*1~GE*1'')) \<and>
   claim_counts (init module_globals) (Some CF) = Some 0 \<and>
   write_output_file fs_writable (init module_globals) ''out'' CF ''claims'' ''.edi'' = (None, None) \<and>
   claim_counts (snd (parse_input_file (fs_content ex_bare_footer) ''claims.edi'' (init module_globals)))
     (Some CE) = Some 1 \<and>
   snd (write_output_file fs_writable
     (snd (parse_input_file (fs_content ex_bare_footer) ''claims.edi'' (init module_globals)))
     ''out'' CE ''claims'' ''.edi'') \<noteq> None"
proof -
  let ?st = "snd (parse_input_file (fs_content ex_two_claims) ''claims.edi'' (init module_globals))"
  let ?sb = "snd (parse_input_file (fs_content ex_bare_footer) ''claims.edi'' (init module_globals))"
  have h1: "claim_counts ?st (Some CE) = Some 1" by (rule parse_ex_two_claims)
  have h2: "fs_writable (output_filename ''out'' CE ''claims'' ''.edi'') = None"
    by (simp add: fs_writable_def)
  have h3: "list_all (\<lambda>s. startswith s FOOTER_CLAIM_COUNT_SEGMENT \<longrightarrow> ELEMENT_DELIMITER \<in> set s)
              (footer ?st)"
    by (simp add: parse_ex_two_claims constant_defs)
  have e: "expected_content ?st CE 1 = ''ISA*1~ST*1~BHT*0*0*CE~SE*1~GE*1''"
    by (simp add: expected_content_def parse_input_file_def fs_content_def read_rows_ex_two_claims
        eval_simps count_rewrite_def str_nat_1)
  have g1: "claim_counts (init module_globals) (Some CF) = Some 0"
    by (simp add: init_def module_globals_def ClaimType_members_def)
  have b1: "claim_counts ?sb (Some CE) = Some 1" by (rule parse_ex_bare_footer)
  have a: "write_output_file fs_writable ?st ''out'' CE ''claims'' ''.edi'' =
             (None, Some (''out/claims_CE.edi'', ''ISA*1~ST*1~BHT*0*0*CE~SE*1~GE*1''))"
    using write_output_file_content
            [OF h1, of fs_writable "''out''" "''claims''" "''.edi''"] h2 h3 e
    by (simp add: output_filename_def)
  have z: "write_output_file fs_writable (init module_globals) ''out'' CF ''claims'' ''.edi'' =
             (None, None)"
    using write_output_file_content
            [OF g1, of fs_writable "''out''" "''claims''" "''.edi''"] by simp
  have o: "snd (write_output_file fs_writable ?sb ''out'' CE ''claims'' ''.edi'') \<noteq> None"
    using write_output_file_content
            [OF b1, of fs_writable "''out''" "''claims''" "''.edi''"] h2 by simp
  show ?thesis by (intro conjI h1 a g1 z b1 o)
qed

text \<open>
  C1 as stated fails when a footer segment with the prefix \<open>GE\<close> has no \<open>*\<close>: the file
  is opened, header and claims are written, and the assignment to element 1 raises
  IndexError before the footer is written.
\<close>

theorem write_output_file_bare_count_segment:
  "claim_counts (snd (parse_input_file (fs_content ex_bare_footer) ''claims.edi'' (init module_globals)))
     (Some CE) = Some 1 \<and>
   footer (snd (parse_input_file (fs_content ex_bare_footer) ''claims.edi'' (init module_globals))) =
     [''GE''] \<and>
   write_output_file fs_writable
     (snd (parse_input_file (fs_content ex_bare_footer) ''claims.edi'' (init module_globals)))
     ''out'' CE ''claims'' ''.edi'' =
     (Some IndexError, Some (''out/claims_CE.edi'', ''ISA*1~ST*1~BHT*0*0*CE~SE*1~''))"
  by (simp add: write_output_file_def output_filename_def fs_writable_def parse_input_file_def
      fs_content_def read_rows_ex_bare_footer eval_simps)

section \<open>The file name in \<open>split\<close>\<close>

lemma str_index_None: "str_index s c = None \<longleftrightarrow> c \<notin> set s"
  by (induction s) auto

text \<open>
  C10, as amended. When both arguments are given, the input file has been parsed without
  error, and header, footer and claims are all non-empty, an input path whose base name
  has no \<open>.\<close> makes \<open>split\<close> raise ValueError from \<open>str.index\<close> before any output file is
  opened: \<open>split\<close> ends with that exception, not with one of its error codes.
\<close>

theorem split_without_period_raises_ValueError:
  assumes "path \<noteq> []" and "\<not> falsy output_dir"
    and "parse_input_file open_r path st = (None, st')"
    and "header st' \<noteq> []" and "footer st' \<noteq> []" and "claims st' \<noteq> []"
    and "CHR ''.'' \<notin> set (basename path)"
  shows "split open_r open_w (Some path) output_dir st = (Some ValueError, st', [])"
  using assms
  by (simp add: split_def falsy_def arg_value_def Let_def str_index_None [THEN iffD2])

theorem split_without_period_raises_ValueError_witness:
  "basename ''in/claims'' = ''claims'' \<and>
   fst (parse_input_file (fs_content ex_two_claims) ''in/claims'' (init module_globals)) = None \<and>
   fst (split (fs_content ex_two_claims) fs_writable (Some ''in/claims'') (Some ''out'')
          (init module_globals)) = Some ValueError \<and>
   snd (snd (split (fs_content ex_two_claims) fs_writable (Some ''in/claims'') (Some ''out'')
          (init module_globals))) = []"
proof -
  let ?r = "parse_input_file (fs_content ex_two_claims) ''in/claims'' (init module_globals)"
  have ok: "fst ?r = None" by (rule parse_ex_two_claims)
  then have h3: "?r = (None, snd ?r)" by (simp add: prod_eq_iff)
  have h1: "''in/claims'' \<noteq> []" by simp
  have h2: "\<not> falsy (Some ''out'')" by (simp add: falsy_def)
  have h4: "header (snd ?r) \<noteq> []" and h5: "footer (snd ?r) \<noteq> []"
    by (simp_all add: parse_ex_two_claims)
  have h6: "claims (snd ?r) \<noteq> []"
    using parse_ex_two_claims(4) [of "''in/claims''"] by auto
  have b: "basename ''in/claims'' = ''claims''" by (simp add: basename_def)
  have h7: "CHR ''.'' \<notin> set (basename ''in/claims'')" by (simp add: b)
  from split_without_period_raises_ValueError [OF h1 h2 h3 h4 h5 h6 h7, of fs_writable] ok b
  show ?thesis by simp
qed

text \<open>
  C10 as stated fails when \<open>split\<close> stops before it looks at the file name: with an empty
  input file it exits with the value of \<open>ERR_HEADER_NOT_FOUND\<close>, with a missing one
  with the value of \<open>ERR_CANT_READ_FILE\<close>, although the base name has no \<open>.\<close>.
\<close>

theorem split_without_period_empty_file:
  "basename ''claims'' = ''claims'' \<and>
   fst (split (fs_content []) fs_writable (Some ''claims'') (Some ''out'') (init module_globals)) =
     Some (SystemExit 5) \<and>
   fst (split fs_missing fs_writable (Some ''claims'') (Some ''out'') (init module_globals)) =
     Some (SystemExit 3)"
  by (simp add: split_def falsy_def arg_value_def parse_input_file_def fs_content_def
      fs_missing_def read_rows_def csv_reader_def parse_reset_def handle_error_def basename_def
      eval_simps)

section \<open>Tokenization: from the file content to the segments\<close>

subsection \<open>Cutting a string\<close>

lemma split_where_not_Nil [simp]: "split_where P s \<noteq> []"
  by (induction s) (auto split: list.splits)

lemma hd_split_where_Cons:
  "hd (split_where P (c # cs)) = (if P c then [] else c # hd (split_where P cs))"
  by (auto split: list.splits)

lemma tl_split_where_Cons:
  "tl (split_where P (c # cs)) = (if P c then split_where P cs else tl (split_where P cs))"
  by (auto split: list.splits)

lemma split_where_hd_tl: "split_where P s = hd (split_where P s) # tl (split_where P s)"
  by simp

lemma split_where_cong: "(\<And>c. c \<in> set s \<Longrightarrow> P c = Q c) \<Longrightarrow> split_where P s = split_where Q s"
  by (induction s) auto

lemma list_all_hd_tl: "xs \<noteq> [] \<Longrightarrow> list_all P xs \<Longrightarrow> P (hd xs) \<and> list_all P (tl xs)"
  by (cases xs) auto

lemma filter_hd_tl: "xs \<noteq> [] \<Longrightarrow> filter P [hd xs] @ filter P (tl xs) = filter P xs"
  by (cases xs) auto

lemma within_limit_Nil [simp]: "within_limit []"
  by (simp add: within_limit_def field_limit_def)

lemma pieces_within_limit:
  "list_all within_limit (split_where P cs) \<Longrightarrow>
   within_limit (hd (split_where P cs)) \<and> list_all within_limit (tl (split_where P cs))"
  by (rule list_all_hd_tl) simp_all

lemma filter_pieces:
  "filter Q [hd (split_where P cs)] @ filter Q (tl (split_where P cs)) = filter Q (split_where P cs)"
  by (rule filter_hd_tl) simp

lemma list_all_within_limit_filter:
  "list_all within_limit (filter (\<lambda>p. p \<noteq> []) xs) = list_all within_limit xs"
  by (induction xs) auto

subsection \<open>The reader outside quoted fields\<close>

lemma file_lines_not_Nil: "cs \<noteq> [] \<Longrightarrow> file_lines cs \<noteq> []"
  by (cases cs) (auto split: list.splits)

lemma reader_rows_char:
  assumes "c \<noteq> LF" and "cs \<noteq> []"
  shows "reader_rows d r (file_lines (c # cs)) =
           (case parse_process_char d r (Some c) of
              None \<Rightarrow> ([], True)
            | Some r' \<Rightarrow> reader_rows d r' (file_lines cs))"
proof -
  from file_lines_not_Nil [OF assms(2)] obtain l ls where l: "file_lines cs = l # ls"
    by (cases "file_lines cs") auto
  show ?thesis
    using assms(1) by (simp add: l process_line_def split: option.splits)
qed

lemma special_chars_distinct:
  "LF \<noteq> CHR ''~''" "CR \<noteq> CHR ''~''" "quotechar \<noteq> CHR ''~''" "LF \<noteq> CR" "quotechar \<noteq> LF"
  "quotechar \<noteq> CR"
  by (simp_all add: LF_def CR_def quotechar_def)

lemma step_ordinary:
  assumes "plain r" and "c \<noteq> quotechar" and "c \<noteq> CR" and "c \<noteq> LF" and "c \<noteq> CHR ''~''"
    and "int (length (rd_field r)) < field_limit"
  shows "parse_process_char (CHR ''~'') r (Some c) =
           Some (r\<lparr>rd_field := rd_field r @ [c], rd_state := IN_FIELD\<rparr>)"
  using assms
  by (auto simp: plain_def parse_process_char_def start_field_def add_char_then_def
      parse_add_char_def is_newline_def)

lemma step_delimiter:
  assumes "plain r"
  shows "parse_process_char (CHR ''~'') r (Some (CHR ''~'')) =
           Some (r\<lparr>rd_fields := rd_fields r @ [rd_field r], rd_field := [], rd_state := START_FIELD\<rparr>)"
  using assms special_chars_distinct
  by (auto simp: plain_def parse_process_char_def start_field_def parse_save_field_def
      is_newline_def)

lemma step_end_of_line:
  assumes "plain r"
  shows "\<exists>r2. parse_process_char (CHR ''~'') r None = Some r2 \<and> rd_state r2 = START_RECORD \<and>
              filter (\<lambda>s. s \<noteq> []) (rd_fields r2) =
                filter (\<lambda>s. s \<noteq> []) (rd_fields r @ [rd_field r])"
  using assms
  by (auto simp: plain_def parse_process_char_def start_field_def end_of_record_def
      parse_save_field_def is_newline_def)

lemma step_newline:
  assumes "plain r"
  shows "\<exists>r2. process_line (CHR ''~'') r [LF] = Some r2 \<and> rd_state r2 = START_RECORD \<and>
              filter (\<lambda>s. s \<noteq> []) (rd_fields r2) =
                filter (\<lambda>s. s \<noteq> []) (rd_fields r @ [rd_field r])"
  using assms special_chars_distinct
  by (auto simp: plain_def process_line_def parse_process_char_def start_field_def
      end_of_record_def parse_save_field_def is_newline_def)

lemma plain_parse_reset: "plain parse_reset"
  by (simp add: plain_def parse_reset_def)

lemma reader_rows_plain:
  "plain r \<Longrightarrow> quotechar \<notin> set u \<Longrightarrow> CR \<notin> set u \<Longrightarrow> u \<noteq> [] \<Longrightarrow>
   within_limit (rd_field r @ hd (split_where is_separator_lf u)) \<Longrightarrow>
   list_all within_limit (tl (split_where is_separator_lf u)) \<Longrightarrow>
   snd (reader_rows (CHR ''~'') r (file_lines u)) = False \<and>
   filter (\<lambda>s. s \<noteq> []) (concat (fst (reader_rows (CHR ''~'') r (file_lines u)))) =
     filter (\<lambda>s. s \<noteq> []) (rd_fields r @ [rd_field r @ hd (split_where is_separator_lf u)]) @
     filter (\<lambda>s. s \<noteq> []) (tl (split_where is_separator_lf u))"
proof (induction u arbitrary: r)
  case Nil
  then show ?case by simp
next
  case (Cons c cs)
  let ?F = "filter (\<lambda>s. s \<noteq> [])"
  from Cons.prems have c: "c \<noteq> quotechar" "c \<noteq> CR" and cs: "quotechar \<notin> set cs" "CR \<notin> set cs"
    by auto
  consider (newline) "c = LF" | (delimiter) "c = CHR ''~''" | (ordinary) "c \<noteq> LF" "c \<noteq> CHR ''~''"
    by blast
  then show ?case
  proof cases
    case newline
    from step_newline [OF Cons.prems(1)] obtain r2 where
      r2: "process_line (CHR ''~'') r [LF] = Some r2" "rd_state r2 = START_RECORD"
          "?F (rd_fields r2) = ?F (rd_fields r @ [rd_field r])"
      by blast
    have pcs: "hd (split_where is_separator_lf (c # cs)) = []" "tl (split_where is_separator_lf (c # cs)) = split_where is_separator_lf cs"
      by (simp_all add: newline is_separator_lf_def)
    show ?thesis
    proof (cases "cs = []")
      case True
      then show ?thesis
        using r2 by (simp add: newline is_separator_lf_def parse_reset_def)
    next
      case False
      from Cons.prems(6) have "list_all within_limit (split_where is_separator_lf cs)"
        by (simp only: pcs)
      from pieces_within_limit [OF this] have
        "within_limit (rd_field parse_reset @ hd (split_where is_separator_lf cs))"
        "list_all within_limit (tl (split_where is_separator_lf cs))"
        by (simp_all add: parse_reset_def)
      from Cons.IH [OF plain_parse_reset cs False this]
      have "snd (reader_rows (CHR ''~'') parse_reset (file_lines cs)) = False"
        "?F (concat (fst (reader_rows (CHR ''~'') parse_reset (file_lines cs)))) =
           ?F [hd (split_where is_separator_lf cs)] @ ?F (tl (split_where is_separator_lf cs))"
        by (simp_all add: parse_reset_def)
      then have ih: "snd (reader_rows (CHR ''~'') parse_reset (file_lines cs)) = False"
        "?F (concat (fst (reader_rows (CHR ''~'') parse_reset (file_lines cs)))) =
           ?F (split_where is_separator_lf cs)"
        by (simp_all only: filter_pieces)
      show ?thesis
        using r2 ih pcs unfolding newline
        by (auto simp del: split_where.simps split: prod.splits)
    qed
  next
    case delimiter
    let ?r' = "r\<lparr>rd_fields := rd_fields r @ [rd_field r], rd_field := [], rd_state := START_FIELD\<rparr>"
    have step: "parse_process_char (CHR ''~'') r (Some c) = Some ?r'"
      using step_delimiter [OF Cons.prems(1)] delimiter by simp
    have p': "plain ?r'" by (simp add: plain_def)
    have pcs: "hd (split_where is_separator_lf (c # cs)) = []" "tl (split_where is_separator_lf (c # cs)) = split_where is_separator_lf cs"
      by (simp_all add: delimiter is_separator_lf_def)
    show ?thesis
    proof (cases "cs = []")
      case True
      from step_end_of_line [OF p'] obtain r2 where
        r2: "parse_process_char (CHR ''~'') ?r' None = Some r2" "rd_state r2 = START_RECORD"
            "?F (rd_fields r2) = ?F (rd_fields ?r' @ [rd_field ?r'])"
        by blast
      show ?thesis
        using step r2 special_chars_distinct(1)
        by (auto simp add: True delimiter is_separator_lf_def process_line_def parse_reset_def)
    next
      case False
      from Cons.prems(6) have "list_all within_limit (split_where is_separator_lf cs)"
        by (simp only: pcs)
      from pieces_within_limit [OF this] have
        "within_limit (rd_field ?r' @ hd (split_where is_separator_lf cs))"
        "list_all within_limit (tl (split_where is_separator_lf cs))"
        by simp_all
      from Cons.IH [OF p' cs False this]
      have "snd (reader_rows (CHR ''~'') ?r' (file_lines cs)) = False"
        "?F (concat (fst (reader_rows (CHR ''~'') ?r' (file_lines cs)))) =
           ?F (rd_fields r @ [rd_field r]) @
           (?F [hd (split_where is_separator_lf cs)] @ ?F (tl (split_where is_separator_lf cs)))"
        by simp_all
      then have ih: "snd (reader_rows (CHR ''~'') ?r' (file_lines cs)) = False"
        "?F (concat (fst (reader_rows (CHR ''~'') ?r' (file_lines cs)))) =
           ?F (rd_fields r @ [rd_field r]) @ ?F (split_where is_separator_lf cs)"
        by (simp_all only: filter_pieces)
      have "reader_rows (CHR ''~'') r (file_lines (c # cs)) =
              reader_rows (CHR ''~'') ?r' (file_lines cs)"
        using reader_rows_char [of c cs "CHR ''~''" r] False step delimiter special_chars_distinct
        by simp
      then show ?thesis
        using ih by (simp add: pcs del: split_where.simps file_lines.simps)
    qed
  next
    case ordinary
    have pcs: "hd (split_where is_separator_lf (c # cs)) = c # hd (split_where is_separator_lf cs)"
      "tl (split_where is_separator_lf (c # cs)) = tl (split_where is_separator_lf cs)"
      using ordinary by (simp_all add: is_separator_lf_def hd_split_where_Cons tl_split_where_Cons
          del: split_where.simps)
    from Cons.prems(5) have len: "int (length (rd_field r)) < field_limit"
      by (simp add: pcs within_limit_def del: split_where.simps)
    let ?r' = "r\<lparr>rd_field := rd_field r @ [c], rd_state := IN_FIELD\<rparr>"
    have step: "parse_process_char (CHR ''~'') r (Some c) = Some ?r'"
      using step_ordinary [OF Cons.prems(1) c ordinary len] .
    have p': "plain ?r'" by (simp add: plain_def)
    show ?thesis
    proof (cases "cs = []")
      case True
      from step_end_of_line [OF p'] obtain r2 where
        r2: "parse_process_char (CHR ''~'') ?r' None = Some r2" "rd_state r2 = START_RECORD"
            "?F (rd_fields r2) = ?F (rd_fields ?r' @ [rd_field ?r'])"
        by blast
      show ?thesis
        using step r2 ordinary by (simp add: True is_separator_lf_def process_line_def parse_reset_def)
    next
      case False
      from Cons.prems(5,6) have
        "within_limit (rd_field ?r' @ hd (split_where is_separator_lf cs))"
        "list_all within_limit (tl (split_where is_separator_lf cs))"
        by (simp_all add: pcs del: split_where.simps)
      from Cons.IH [OF p' cs False this]
      have ih: "snd (reader_rows (CHR ''~'') ?r' (file_lines cs)) = False"
        "?F (concat (fst (reader_rows (CHR ''~'') ?r' (file_lines cs)))) =
           ?F (rd_fields r @ [rd_field r @ c # hd (split_where is_separator_lf cs)]) @
           ?F (tl (split_where is_separator_lf cs))"
        by simp_all
      have "reader_rows (CHR ''~'') r (file_lines (c # cs)) =
              reader_rows (CHR ''~'') ?r' (file_lines cs)"
        using reader_rows_char [of c cs "CHR ''~''" r] False step ordinary by simp
      then show ?thesis
        using ih by (simp add: pcs del: split_where.simps file_lines.simps)
    qed
  qed
qed

subsection \<open>Universal newlines\<close>

lemma separator_simps:
  "is_separator CR" "is_separator LF" "is_separator_lf LF" "c \<noteq> CR \<Longrightarrow> is_separator c = is_separator_lf c"
  by (simp_all add: is_separator_def is_separator_lf_def)

lemma universal_newlines_pieces:
  "hd (split_where is_separator s) = hd (split_where is_separator_lf (universal_newlines s)) \<and>
   filter (\<lambda>p. p \<noteq> []) (tl (split_where is_separator s)) =
     filter (\<lambda>p. p \<noteq> []) (tl (split_where is_separator_lf (universal_newlines s)))"
proof (induction s rule: universal_newlines.induct)
  case 1
  show ?case by simp
next
  case (2 c)
  show ?case by (auto simp: separator_simps)
next
  case (3 c d cs)
  let ?F = "filter (\<lambda>p. p \<noteq> [])"
  show ?case
  proof (cases "c = CR")
    case True
    show ?thesis
    proof (cases "d = LF")
      case lf: True
      from 3(1) [OF True lf] have
        "?F (split_where is_separator cs) = ?F (split_where is_separator_lf (universal_newlines cs))"
        by (metis filter_pieces)
      then show ?thesis
        by (simp add: True lf separator_simps)
    next
      case False
      from 3(2) [OF True False] have
        "?F (split_where is_separator (d # cs)) = ?F (split_where is_separator_lf (universal_newlines (d # cs)))"
        by (metis filter_pieces)
      then show ?thesis
        using False by (simp add: True separator_simps del: split_where.simps
            add: hd_split_where_Cons tl_split_where_Cons)
    qed
  next
    case False
    have u: "universal_newlines (c # d # cs) = c # universal_newlines (d # cs)"
      using False by simp
    have s: "is_separator c = is_separator_lf c"
      using False by (simp add: separator_simps)
    from 3(3) [OF False] have ih:
      "hd (split_where is_separator (d # cs)) = hd (split_where is_separator_lf (universal_newlines (d # cs)))"
      "?F (tl (split_where is_separator (d # cs))) =
         ?F (tl (split_where is_separator_lf (universal_newlines (d # cs))))"
      by simp_all
    then have full: "?F (split_where is_separator (d # cs)) =
               ?F (split_where is_separator_lf (universal_newlines (d # cs)))"
      by (metis filter_pieces)
    have l: "hd (split_where is_separator (c # d # cs)) =
               (if is_separator_lf c then [] else c # hd (split_where is_separator (d # cs)))"
      "tl (split_where is_separator (c # d # cs)) =
               (if is_separator_lf c then split_where is_separator (d # cs)
                else tl (split_where is_separator (d # cs)))"
      using hd_split_where_Cons [of is_separator c "d # cs"]
        tl_split_where_Cons [of is_separator c "d # cs"] by (simp_all only: s)
    have r: "hd (split_where is_separator_lf (c # universal_newlines (d # cs))) =
               (if is_separator_lf c then [] else c # hd (split_where is_separator_lf (universal_newlines (d # cs))))"
      "tl (split_where is_separator_lf (c # universal_newlines (d # cs))) =
               (if is_separator_lf c then split_where is_separator_lf (universal_newlines (d # cs))
                else tl (split_where is_separator_lf (universal_newlines (d # cs))))"
      by (rule hd_split_where_Cons, rule tl_split_where_Cons)
    show ?thesis
      unfolding u l r using ih full by (cases "is_separator_lf c") (simp_all only: if_True if_False simp_thms)
  qed
qed

lemma universal_newlines_tokens:
  "filter (\<lambda>p. p \<noteq> []) (split_where is_separator s) =
   filter (\<lambda>p. p \<noteq> []) (split_where is_separator_lf (universal_newlines s))"
  using universal_newlines_pieces [of s] by (metis filter_pieces)

lemma set_universal_newlines: "set (universal_newlines s) \<subseteq> insert LF (set s - {CR})"
  by (induction s rule: universal_newlines.induct) auto

lemma universal_newlines_Nil_iff: "universal_newlines s = [] \<longleftrightarrow> s = []"
  by (induction s rule: universal_newlines.induct) auto

subsection \<open>The segments of a file\<close>

text \<open>
  C2, as amended. For a file content that has no double quote and whose pieces between
  separators have at most 131072 characters, the reader raises no error, and the
  non-empty segments that reach the classifier are, in file order, the non-empty pieces
  of the content cut at every \<open>~\<close> and at every line break: the delimiters are stripped
  and empty pieces, such as the one after a trailing delimiter, are dropped. A line break
  ends a segment, so a segment that is split across a line boundary arrives as two
  segments. For a content without line breaks this is the tokenization as the claim
  words it.
\<close>

theorem tokens_of_quote_free_content:
  assumes "quotechar \<notin> set content"
    and "list_all within_limit (split_where is_separator content)"
  shows "snd (read_rows content) = False \<and>
         tokens content = filter (\<lambda>s. s \<noteq> []) (split_where is_separator content) \<and>
         (LF \<notin> set content \<and> CR \<notin> set content \<longrightarrow> tokens content = claimed_tokens content)"
proof -
  let ?F = "filter (\<lambda>s. s \<noteq> [])"
  let ?u = "universal_newlines content"
  have q: "quotechar \<notin> set ?u" and cr: "CR \<notin> set ?u"
    using set_universal_newlines [of content] assms(1) special_chars_distinct by auto
  have "list_all within_limit (split_where is_separator_lf ?u)"
    using assms(2) list_all_within_limit_filter [of "split_where is_separator content"]
      list_all_within_limit_filter [of "split_where is_separator_lf ?u"]
    by (simp only: universal_newlines_tokens)
  from pieces_within_limit [OF this] have b:
    "within_limit (rd_field parse_reset @ hd (split_where is_separator_lf ?u))"
    "list_all within_limit (tl (split_where is_separator_lf ?u))"
    by (simp_all add: parse_reset_def)
  have main: "snd (read_rows content) = False \<and> tokens content = ?F (split_where is_separator_lf ?u)"
  proof (cases "?u = []")
    case True
    then show ?thesis
      by (simp add: read_rows_def csv_reader_def tokens_def segments_def parse_reset_def)
  next
    case False
    from reader_rows_plain [OF plain_parse_reset q cr False b]
    have "snd (reader_rows (CHR ''~'') parse_reset (file_lines ?u)) = False"
      "?F (concat (fst (reader_rows (CHR ''~'') parse_reset (file_lines ?u)))) =
         ?F [hd (split_where is_separator_lf ?u)] @ ?F (tl (split_where is_separator_lf ?u))"
      by (simp_all add: parse_reset_def)
    then show ?thesis
      by (simp only: filter_pieces)
        (simp add: read_rows_def csv_reader_def tokens_def segments_def SEGMENT_DELIMITER_def)
  qed
  then have t: "tokens content = ?F (split_where is_separator content)"
    by (simp only: universal_newlines_tokens)
  have "tokens content = claimed_tokens content" if "LF \<notin> set content \<and> CR \<notin> set content"
  proof -
    from that have "filter (\<lambda>c. c \<noteq> LF \<and> c \<noteq> CR) content = content"
      by (auto simp: filter_id_conv)
    moreover have "split_where (\<lambda>c. c = CHR ''~'') content = split_where is_separator content"
      using that by (intro split_where_cong) (auto simp: is_separator_def)
    ultimately show ?thesis
      by (simp add: t claimed_tokens_def str_split_def)
  qed
  with main t show ?thesis by simp
qed

lemma read_rows_ex_wrapped:
  "read_rows ex_wrapped = ([[''ST*1'', ''BH''], [''T*0*0*CE'', ''SE*1'', '''']], False)"
  by code_simp

theorem tokens_of_quote_free_content_witness:
  "quotechar \<notin> set ex_wrapped \<and>
   list_all within_limit (split_where is_separator ex_wrapped) \<and>
   snd (read_rows ex_wrapped) = False \<and>
   tokens ex_wrapped = [''ST*1'', ''BH'', ''T*0*0*CE'', ''SE*1'']"
proof -
  have h1: "quotechar \<notin> set ex_wrapped"
    by (simp add: ex_wrapped_def quotechar_def)
  have s: "split_where is_separator ex_wrapped = [''ST*1'', ''BH'', ''T*0*0*CE'', ''SE*1'', '''']"
    by (simp add: ex_wrapped_def is_separator_def LF_def CR_def)
  have h2: "list_all within_limit (split_where is_separator ex_wrapped)"
    by (simp add: s within_limit_def field_limit_def)
  from tokens_of_quote_free_content [OF h1 h2] h1 h2 show ?thesis
    by (simp add: s)
qed

text \<open>
  C2 as stated fails on a file whose \<open>BHT\<close> segment is wrapped onto a second line: the
  two halves reach the classifier as two segments, no type is resolved, and the
  claim-end segment raises KeyError.
\<close>

theorem wrapped_segment_is_not_rejoined:
  "tokens ex_wrapped = [''ST*1'', ''BH'', ''T*0*0*CE'', ''SE*1''] \<and>
   claimed_tokens ex_wrapped = [''ST*1'', ''BHT*0*0*CE'', ''SE*1''] \<and>
   fst (parse_input_file (fs_content ex_wrapped) ''claims.edi'' (init module_globals)) = Some KeyError"
proof -
  have "tokens ex_wrapped = [''ST*1'', ''BH'', ''T*0*0*CE'', ''SE*1'']"
    by (simp add: tokens_def segments_def read_rows_ex_wrapped)
  moreover have "claimed_tokens ex_wrapped = [''ST*1'', ''BHT*0*0*CE'', ''SE*1'']"
    by (simp add: claimed_tokens_def ex_wrapped_def str_split_def LF_def CR_def)
  moreover have
    "fst (parse_input_file (fs_content ex_wrapped) ''claims.edi'' (init module_globals)) = Some KeyError"
    by (simp add: parse_input_file_def fs_content_def read_rows_ex_wrapped
      classify_def Let_def new_list_def append_cur_def enter_parse_def init_def
      module_globals_def startswith_def constant_defs ClaimType_members_def)
  ultimately show ?thesis by simp
qed

end
